theory Spec2Isabelle
  imports Main "HOL-Library.Sublist"
begin

section \<open>Local media synchronisation: the scanner, the sync engine and the lock\<close>

text \<open>
  The development embeds \<^verbatim>\<open>fileScanner.ts\<close> (\<^verbatim>\<open>scanDirectory\<close>,
  \<^verbatim>\<open>scanLocalMediaFiles\<close>, \<^verbatim>\<open>convertToInsertContent\<close>) and
  \<^verbatim>\<open>server/localFileSync.ts\<close> (\<^verbatim>\<open>syncLocalMediaFiles\<close>,
  \<^verbatim>\<open>syncWithLock\<close>). An \<^verbatim>\<open>async\<close> function returning
  \<^verbatim>\<open>Promise<T>\<close> is a function from the state before the call to the state after
  it and an outcome \<open>error + T\<close>: \<open>Inl\<close> is a rejected promise (a throw), \<open>Inr\<close> a
  resolved one. Console output is not part of the model, and \<^verbatim>\<open>console.log\<close> and
  \<^verbatim>\<open>console.error\<close> are taken not to throw.
\<close>

subsection \<open>Data model\<close>

text \<open>
  A thrown value, by what the template literal \<^verbatim>\<open>${error}\<close> makes of it.
  \<open>Error m\<close> is a value that the literal converts to the string \<open>m\<close> (an
  \<^verbatim>\<open>Error\<close> object, a string, a number). \<open>Unprintable e\<close> is a value whose
  conversion throws \<open>e\<close>: a \<^verbatim>\<open>Symbol\<close> or an object without
  \<^verbatim>\<open>toString\<close>, where \<open>e\<close> is the \<^verbatim>\<open>TypeError\<close>, or an object whose
  \<^verbatim>\<open>toString\<close> throws \<open>e\<close>. \<open>render\<close> is the conversion: \<open>Inr\<close> the string,
  \<open>Inl\<close> the value thrown instead.
\<close>

datatype error = Error string | Unprintable error

fun render :: "error \<Rightarrow> error + string" where
  "render (Error m) = Inr m"
| "render (Unprintable e) = Inl e"

fun printable :: "error \<Rightarrow> bool" where
  "printable (Error m) = True"
| "printable (Unprintable e) = False"

text \<open>The union type \<^verbatim>\<open>"image" | "video"\<close>.\<close>

datatype mediaType = ImageType | VideoType

text \<open>
  \<^verbatim>\<open>interface LocalFileInfo\<close>. The optional field \<^verbatim>\<open>duration?: number\<close> is
  \<open>None\<close> when the property is absent (\<^verbatim>\<open>undefined\<close>).
\<close>

record LocalFileInfo =
  title :: string
  type :: mediaType
  localFilePath :: string
  mimeType :: string
  fileSize :: nat
  duration :: "nat option"

text \<open>
  \<^verbatim>\<open>InsertContent\<close>, with the eight properties that \<^verbatim>\<open>convertToInsertContent\<close>
  writes. In \<open>ic_duration\<close> the value \<open>None\<close> is \<^verbatim>\<open>undefined\<close>; in the nullable
  fields \<open>ic_localFilePath\<close>, \<open>ic_googleDriveId\<close> and \<open>ic_googleDriveUrl\<close> it is
  \<^verbatim>\<open>null\<close>.
\<close>

record InsertContent =
  ic_title :: string
  ic_type :: mediaType
  ic_localFilePath :: "string option"
  ic_mimeType :: string
  ic_fileSize :: nat
  ic_duration :: "nat option"
  ic_googleDriveId :: "string option"
  ic_googleDriveUrl :: "string option"

text \<open>
  Modelled from the spec: the type \<^verbatim>\<open>Content\<close> of \<^verbatim>\<open>@shared/schema\<close> is not
  among the sources. The spec describes a persisted record keyed by an opaque id whose
  fields mirror the file descriptor, plus an optional remote-storage identifier and URL.
  The sync engine reads only \<^verbatim>\<open>localFilePath\<close> (and \<^verbatim>\<open>title\<close>, for a log line).
\<close>

record Content =
  c_id :: nat
  c_title :: string
  c_type :: mediaType
  c_localFilePath :: "string option"
  c_mimeType :: string
  c_fileSize :: nat
  c_duration :: "nat option"
  c_googleDriveId :: "string option"
  c_googleDriveUrl :: "string option"

text \<open>\<^verbatim>\<open>interface SyncResult\<close>.\<close>

record SyncResult =
  added :: nat
  removed :: nat
  unchanged :: nat
  errors :: "string list"

subsection \<open>The filesystem\<close>

text \<open>
  What \<^verbatim>\<open>fs/promises\<close> answers, per path: whether \<^verbatim>\<open>fs.access\<close> resolves, what
  \<^verbatim>\<open>fs.readdir\<close> lists, the size \<^verbatim>\<open>fs.stat\<close> reports, and whether
  \<^verbatim>\<open>fs.mkdir\<close> fails. A failing call of \<^verbatim>\<open>fs/promises\<close> throws an
  \<^verbatim>\<open>Error\<close> object; the filesystem gives its message (\<open>Inl\<close>, or \<open>Some\<close> for
  \<^verbatim>\<open>fs.mkdir\<close>). \<open>cwd\<close> is \<^verbatim>\<open>process.cwd()\<close>, a normalised absolute path.
  The two directory scans run concurrently; \<open>videos_reject_first\<close> says which of them
  rejects first in time when both reject.
\<close>

record filesystem =
  cwd :: string
  videos_reject_first :: bool
  access_ok :: "string \<Rightarrow> bool"
  readdir_result :: "string \<Rightarrow> string + string list"
  stat_result :: "string \<Rightarrow> string + nat"
  mkdir_error :: "string \<Rightarrow> string option"

definition fs_access :: "filesystem \<Rightarrow> string \<Rightarrow> bool" where
  "fs_access fs p = access_ok fs p"

definition fs_readdir :: "filesystem \<Rightarrow> string \<Rightarrow> error + string list" where
  "fs_readdir fs p = (case readdir_result fs p of Inl m \<Rightarrow> Inl (Error m) | Inr names \<Rightarrow> Inr names)"

definition fs_stat :: "filesystem \<Rightarrow> string \<Rightarrow> error + nat" where
  "fs_stat fs p = (case stat_result fs p of Inl m \<Rightarrow> Inl (Error m) | Inr sz \<Rightarrow> Inr sz)"

text \<open>\<open>is_ancestor q p\<close>: the directory \<open>q\<close> lies on the path to \<open>p\<close>.\<close>

definition is_ancestor :: "string \<Rightarrow> string \<Rightarrow> bool" where
  "is_ancestor q p = (q \<noteq> [] \<and> prefix (q @ ''/'') p)"

text \<open>
  \<^verbatim>\<open>fs.mkdir(p, { recursive: true })\<close>, called by the scanner only after
  \<^verbatim>\<open>fs.access(p)\<close> has failed. When it succeeds, \<open>p\<close> and the directories on the
  path to it are accessible, and \<open>p\<close>, just created, lists no entry.
\<close>

definition fs_mkdir :: "filesystem \<Rightarrow> string \<Rightarrow> error + filesystem" where
  "fs_mkdir fs p =
     (case mkdir_error fs p of
        Some m \<Rightarrow> Inl (Error m)
      | None \<Rightarrow> Inr (fs\<lparr>access_ok := (\<lambda>q. q = p \<or> is_ancestor q p \<or> access_ok fs q),
                        readdir_result := (readdir_result fs)(p := Inr [])\<rparr>))"

subsection \<open>Node's path functions and \<^verbatim>\<open>String.prototype.toLowerCase\<close>\<close>

text \<open>
  \<^verbatim>\<open>path.join(dir, file)\<close> for a normalised \<open>dir\<close> and a relative \<open>file\<close> that
  needs no normalisation (a directory entry, or \<^verbatim>\<open>"server/media"\<close>).
\<close>

definition path_join :: "string \<Rightarrow> string \<Rightarrow> string" where
  "path_join dir file = (if dir \<noteq> [] \<and> last dir = CHR ''/'' then dir @ file else dir @ ''/'' @ file)"

text \<open>
  \<^verbatim>\<open>path.extname\<close> on a name without separator: the text from the last dot on,
  and the empty string when there is no dot, when the last dot is the first character, or
  when the name is \<^verbatim>\<open>..\<close>.
\<close>

definition extname :: "string \<Rightarrow> string" where
  "extname p =
     (if CHR ''.'' \<notin> set p then []
      else let ext = CHR ''.'' # rev (takeWhile (\<lambda>c. c \<noteq> CHR ''.'') (rev p))
           in if length ext = length p \<or> p = ''..'' then [] else ext)"

text \<open>
  \<^verbatim>\<open>path.basename(p, suffix)\<close> on a name without separator: \<open>p\<close> without the
  suffix when \<open>p\<close> ends with it (compared case-sensitively), the empty string when the
  suffix is all of \<open>p\<close>.
\<close>

definition basename :: "string \<Rightarrow> string \<Rightarrow> string" where
  "basename p sfx =
     (if sfx \<noteq> [] \<and> length sfx \<le> length p then
        (if sfx = p then []
         else if drop (length p - length sfx) p = sfx
              then take (length p - length sfx) p
              else p)
      else p)"

text \<open>
  \<^verbatim>\<open>toLowerCase\<close> on the ASCII letters; other bytes are kept. (JavaScript also
  lowers letters outside ASCII; the allowed extensions are ASCII, and the properties
  below hold for whatever names match.)
\<close>

definition lowerChar :: "char \<Rightarrow> char" where
  "lowerChar c =
     (let n = (of_char c :: nat) in if 65 \<le> n \<and> n \<le> 90 then char_of (n + 32) else c)"

definition toLowerCase :: "string \<Rightarrow> string" where
  "toLowerCase s = map lowerChar s"

subsection \<open>The scanner (\<^verbatim>\<open>fileScanner.ts\<close>)\<close>

definition MEDIA_DIR :: "filesystem \<Rightarrow> string" where
  "MEDIA_DIR fs = path_join (cwd fs) ''server/media''"

definition IMAGES_DIR :: "filesystem \<Rightarrow> string" where
  "IMAGES_DIR fs = path_join (MEDIA_DIR fs) ''images''"

definition VIDEOS_DIR :: "filesystem \<Rightarrow> string" where
  "VIDEOS_DIR fs = path_join (MEDIA_DIR fs) ''videos''"

definition IMAGE_EXTENSIONS :: "string list" where
  "IMAGE_EXTENSIONS = [''.jpg'', ''.jpeg'', ''.png'', ''.gif'', ''.webp'', ''.bmp'']"

definition VIDEO_EXTENSIONS :: "string list" where
  "VIDEO_EXTENSIONS = [''.mp4'', ''.mov'', ''.avi'', ''.mkv'', ''.webm'', ''.m4v'']"

definition getFileStats :: "filesystem \<Rightarrow> string \<Rightarrow> error + nat" where
  "getFileStats fs filePath = fs_stat fs filePath"

definition mimeTypes :: "(string \<times> string) list" where
  "mimeTypes =
     [(''.jpg'', ''image/jpeg''), (''.jpeg'', ''image/jpeg''), (''.png'', ''image/png''),
      (''.gif'', ''image/gif''), (''.webp'', ''image/webp''), (''.bmp'', ''image/bmp''),
      (''.mp4'', ''video/mp4''), (''.mov'', ''video/quicktime''), (''.avi'', ''video/x-msvideo''),
      (''.mkv'', ''video/x-matroska''), (''.webm'', ''video/webm''), (''.m4v'', ''video/x-m4v'')]"

definition getMimeType :: "string \<Rightarrow> string" where
  "getMimeType extension =
     (case map_of mimeTypes (toLowerCase extension) of
        Some m \<Rightarrow> m
      | None \<Rightarrow> ''application/octet-stream'')"

text \<open>
  The \<^verbatim>\<open>for (const file of files)\<close> loop of \<^verbatim>\<open>scanDirectory\<close>: the descriptors
  pushed to \<^verbatim>\<open>fileInfos\<close>, in the order of the listing. A file whose
  \<^verbatim>\<open>getFileStats\<close> throws is logged to the console and pushes nothing. The object
  literal has no \<^verbatim>\<open>duration\<close> property.
\<close>

fun scanFiles :: "filesystem \<Rightarrow> string \<Rightarrow> mediaType \<Rightarrow> string list \<Rightarrow> string list
                  \<Rightarrow> LocalFileInfo list" where
  "scanFiles fs dirPath ty allowedExtensions [] = []"
| "scanFiles fs dirPath ty allowedExtensions (file # files) =
     (let filePath = path_join dirPath file;
          ext = toLowerCase (extname file)
      in if ext \<in> set allowedExtensions then
           (case getFileStats fs filePath of
              Inr sz \<Rightarrow>
                \<lparr>title = basename file ext, type = ty, localFilePath = filePath,
                 mimeType = getMimeType ext, fileSize = sz, duration = None\<rparr>
                # scanFiles fs dirPath ty allowedExtensions files
            | Inl e \<Rightarrow> scanFiles fs dirPath ty allowedExtensions files)
         else scanFiles fs dirPath ty allowedExtensions files)"

definition scanDirectory :: "filesystem \<Rightarrow> string \<Rightarrow> mediaType \<Rightarrow> string list
                             \<Rightarrow> filesystem \<times> (error + LocalFileInfo list)" where
  "scanDirectory fs dirPath ty allowedExtensions =
     (if \<not> fs_access fs dirPath then
        (case fs_mkdir fs dirPath of
           Inl e \<Rightarrow> (fs, Inl e)
         | Inr fs' \<Rightarrow> (fs', Inr []))
      else
        (case fs_readdir fs dirPath of
           Inl e \<Rightarrow> (fs, Inl e)
         | Inr files \<Rightarrow> (fs, Inr (scanFiles fs dirPath ty allowedExtensions files))))"

text \<open>
  \<^verbatim>\<open>Promise.all\<close> over the two scans, which touch different directories: both run
  to their end, whatever the other does. The result is the concatenation
  \<^verbatim>\<open>[...images, ...videos]\<close>, or the rejection of the scan that rejects, and when
  both reject the one that rejects first in time.
\<close>

definition scanLocalMediaFiles :: "filesystem \<Rightarrow> filesystem \<times> (error + LocalFileInfo list)" where
  "scanLocalMediaFiles fs =
     (let (fs1, images) = scanDirectory fs (IMAGES_DIR fs) ImageType IMAGE_EXTENSIONS;
          (fs2, videos) = scanDirectory fs1 (VIDEOS_DIR fs) VideoType VIDEO_EXTENSIONS
      in (fs2,
          case images of
            Inl ei \<Rightarrow>
              (case videos of
                 Inl ev \<Rightarrow> Inl (if videos_reject_first fs then ev else ei)
               | Inr vs \<Rightarrow> Inl ei)
          | Inr is \<Rightarrow> (case videos of Inl ev \<Rightarrow> Inl ev | Inr vs \<Rightarrow> Inr (is @ vs))))"

definition convertToInsertContent :: "LocalFileInfo \<Rightarrow> InsertContent" where
  "convertToInsertContent fileInfo =
     \<lparr>ic_title = title fileInfo,
      ic_type = type fileInfo,
      ic_localFilePath = Some (localFilePath fileInfo),
      ic_mimeType = mimeType fileInfo,
      ic_fileSize = fileSize fileInfo,
      ic_duration = duration fileInfo,
      ic_googleDriveId = None,
      ic_googleDriveUrl = None\<rparr>"

subsection \<open>The content store\<close>

text \<open>
  Modelled from the spec: \<^verbatim>\<open>server/storage.ts\<close> is not among the sources. Its
  interface is the one of the spec's section 6: \<^verbatim>\<open>getAllContent\<close>,
  \<^verbatim>\<open>getContentByLocalPath\<close>, \<^verbatim>\<open>createContent\<close> and
  \<^verbatim>\<open>deleteContentByLocalPath\<close>. The sync engine is written over any implementation:
  each operation maps the store's state to a new state and an outcome, so an operation
  may throw, at any call, and may change the state whether it throws or not.
\<close>

record 's storage =
  getAllContent :: "'s \<Rightarrow> 's \<times> (error + Content list)"
  getContentByLocalPath :: "'s \<Rightarrow> string \<Rightarrow> 's \<times> (error + Content option)"
  createContent :: "'s \<Rightarrow> InsertContent \<Rightarrow> 's \<times> (error + Content)"
  deleteContentByLocalPath :: "'s \<Rightarrow> string \<Rightarrow> 's \<times> (error + unit)"

text \<open>The mutating calls that a run issues to the store, in order.\<close>

datatype storeCall = CreateContent InsertContent | DeleteContentByLocalPath string

text \<open>
  The state of the process and its environment: the filesystem, the store, the trace of
  mutating store calls issued so far, and the module variable \<^verbatim>\<open>isSyncing\<close>.
\<close>

record 's world =
  files :: filesystem
  db :: 's
  calls :: "storeCall list"
  isSyncing :: bool

text \<open>
  Modelled from the spec: an in-memory store that never throws. Records are kept in
  insertion order; lookup by path returns the first record with that local path;
  \<^verbatim>\<open>createContent\<close> appends a record with a fresh id; \<^verbatim>\<open>deleteContentByLocalPath\<close>
  removes the records with that local path.
\<close>

definition nextId :: "Content list \<Rightarrow> nat" where
  "nextId cs = Suc (fold max (map c_id cs) 0)"

definition newContent :: "nat \<Rightarrow> InsertContent \<Rightarrow> Content" where
  "newContent i ins =
     \<lparr>c_id = i, c_title = ic_title ins, c_type = ic_type ins,
      c_localFilePath = ic_localFilePath ins, c_mimeType = ic_mimeType ins,
      c_fileSize = ic_fileSize ins, c_duration = ic_duration ins,
      c_googleDriveId = ic_googleDriveId ins, c_googleDriveUrl = ic_googleDriveUrl ins\<rparr>"

definition memStorage :: "Content list storage" where
  "memStorage =
     \<lparr>getAllContent = (\<lambda>s. (s, Inr s)),
      getContentByLocalPath = (\<lambda>s p. (s, Inr (find (\<lambda>c. c_localFilePath c = Some p) s))),
      createContent = (\<lambda>s ins. (s @ [newContent (nextId s) ins], Inr (newContent (nextId s) ins))),
      deleteContentByLocalPath = (\<lambda>s p. (filter (\<lambda>c. c_localFilePath c \<noteq> Some p) s, Inr ()))\<rparr>"

subsection \<open>The sync engine (\<^verbatim>\<open>server/localFileSync.ts\<close>)\<close>

text \<open>
  JavaScript truthiness of a \<^verbatim>\<open>string | null\<close>: \<^verbatim>\<open>null\<close> and the empty string
  are falsy.
\<close>

fun truthy :: "string option \<Rightarrow> bool" where
  "truthy None = False"
| "truthy (Some p) = (p \<noteq> [])"

definition pushError :: "string \<Rightarrow> SyncResult \<Rightarrow> SyncResult" where
  "pushError msg result = result\<lparr>errors := errors result @ [msg]\<rparr>"

text \<open>
  The \<^verbatim>\<open>catch\<close> block of the first loop: the message is built with
  \<^verbatim>\<open>${error}\<close> and pushed to \<^verbatim>\<open>result.errors\<close>. When the conversion of the
  caught value throws, that throw leaves the block, and with it the loop (third
  component \<open>Some\<close>).
\<close>

definition catchAdding :: "LocalFileInfo \<Rightarrow> error \<Rightarrow> 's world \<times> SyncResult
                           \<Rightarrow> 's world \<times> SyncResult \<times> error option" where
  "catchAdding fileInfo e wr =
     (let (w, result) = wr
      in case render e of
           Inr m \<Rightarrow> (w, pushError (''Error adding '' @ title fileInfo @ '': '' @ m) result, None)
         | Inl thrown \<Rightarrow> (w, result, Some thrown))"

text \<open>
  The body of the first loop, for one \<^verbatim>\<open>fileInfo\<close>, with its own
  \<^verbatim>\<open>try\<close>/\<^verbatim>\<open>catch\<close>: a throw of the lookup or of the insert goes to the
  \<^verbatim>\<open>catch\<close> block.
\<close>

definition addFile :: "'s storage \<Rightarrow> LocalFileInfo \<Rightarrow> 's world \<times> SyncResult
                       \<Rightarrow> 's world \<times> SyncResult \<times> error option" where
  "addFile st fileInfo wr =
     (let (w, result) = wr;
          (s1, existing) = getContentByLocalPath st (db w) (localFilePath fileInfo)
      in case existing of
           Inl e \<Rightarrow> catchAdding fileInfo e (w\<lparr>db := s1\<rparr>, result)
         | Inr None \<Rightarrow>
             (let ins = convertToInsertContent fileInfo;
                  (s2, created) = createContent st s1 ins;
                  w2 = w\<lparr>db := s2, calls := calls w @ [CreateContent ins]\<rparr>
              in case created of
                   Inl e \<Rightarrow> catchAdding fileInfo e (w2, result)
                 | Inr c \<Rightarrow> (w2, result\<lparr>added := added result + 1\<rparr>, None))
         | Inr (Some c) \<Rightarrow>
             (w\<lparr>db := s1\<rparr>, result\<lparr>unchanged := unchanged result + 1\<rparr>, None))"

text \<open>The first loop; a throw out of its body ends it.\<close>

fun addLoop :: "'s storage \<Rightarrow> LocalFileInfo list \<Rightarrow> 's world \<times> SyncResult
                \<Rightarrow> 's world \<times> SyncResult \<times> error option" where
  "addLoop st [] wr = (fst wr, snd wr, None)"
| "addLoop st (fileInfo # localFiles) wr =
     (case addFile st fileInfo wr of
        (w, result, None) \<Rightarrow> addLoop st localFiles (w, result)
      | (w, result, Some e) \<Rightarrow> (w, result, Some e))"

text \<open>
  The second loop. Its \<^verbatim>\<open>try\<close> holds \<^verbatim>\<open>fs.access\<close> only; the delete is in the
  \<^verbatim>\<open>catch\<close> block, so a throw of the delete leaves the loop (third component
  \<open>Some e\<close>) with the result as it stands.
\<close>

fun removeLoop :: "'s storage \<Rightarrow> string set \<Rightarrow> Content list \<Rightarrow> 's world \<times> SyncResult
                   \<Rightarrow> 's world \<times> SyncResult \<times> error option" where
  "removeLoop st localFilePaths [] (w, result) = (w, result, None)"
| "removeLoop st localFilePaths (dbContent # dbLocalContent) (w, result) =
     (if \<not> truthy (c_localFilePath dbContent) then
        removeLoop st localFilePaths dbLocalContent (w, result)
      else
        (let p = the (c_localFilePath dbContent)
         in if p \<notin> localFilePaths then
              (if fs_access (files w) p then
                 removeLoop st localFilePaths dbLocalContent
                   (w, result\<lparr>unchanged := unchanged result + 1\<rparr>)
               else
                 (let (s1, deleted) = deleteContentByLocalPath st (db w) p;
                      w1 = w\<lparr>db := s1, calls := calls w @ [DeleteContentByLocalPath p]\<rparr>
                  in case deleted of
                       Inl e \<Rightarrow> (w1, result, Some e)
                     | Inr u \<Rightarrow>
                         removeLoop st localFilePaths dbLocalContent
                           (w1, result\<lparr>removed := removed result + 1\<rparr>)))
            else removeLoop st localFilePaths dbLocalContent (w, result)))"

definition emptyResult :: SyncResult where
  "emptyResult = \<lparr>added = 0, removed = 0, unchanged = 0, errors = []\<rparr>"

text \<open>
  The outer \<^verbatim>\<open>try\<close> block: the state after it, \<^verbatim>\<open>result\<close> as the block left
  it, and the value thrown out of the block, if any.
\<close>

definition syncBody :: "'s storage \<Rightarrow> 's world \<Rightarrow> 's world \<times> SyncResult \<times> error option" where
  "syncBody st w =
     (let (fs1, scanned) = scanLocalMediaFiles (files w);
          w1 = w\<lparr>files := fs1\<rparr>
      in case scanned of
           Inl e \<Rightarrow> (w1, emptyResult, Some e)
         | Inr localFiles \<Rightarrow>
             (let (s1, listed) = getAllContent st (db w1);
                  w2 = w1\<lparr>db := s1\<rparr>
              in case listed of
                   Inl e \<Rightarrow> (w2, emptyResult, Some e)
                 | Inr allContent \<Rightarrow>
                     (let localFilePaths = set (map localFilePath localFiles);
                          dbLocalContent = filter (\<lambda>c. truthy (c_localFilePath c)) allContent
                      in case addLoop st localFiles (w2, emptyResult) of
                           (w3, result, Some e) \<Rightarrow> (w3, result, Some e)
                         | (w3, result, None) \<Rightarrow>
                             removeLoop st localFilePaths dbLocalContent (w3, result))))"

text \<open>
  The function: the \<^verbatim>\<open>try\<close> block, and the outer \<^verbatim>\<open>catch\<close> block, which
  builds its message with \<^verbatim>\<open>${error}\<close> too. When that conversion throws, nothing
  catches the throw and the promise is rejected.
\<close>

definition syncLocalMediaFiles :: "'s storage \<Rightarrow> 's world \<Rightarrow> 's world \<times> (error + SyncResult)" where
  "syncLocalMediaFiles st w =
     (case syncBody st w of
        (w', result, None) \<Rightarrow> (w', Inr result)
      | (w', result, Some e) \<Rightarrow>
          (case render e of
             Inr m \<Rightarrow> (w', Inr (pushError (''Sync failed: '' @ m) result))
           | Inl thrown \<Rightarrow> (w', Inl thrown)))"

subsection \<open>The lock\<close>

text \<open>
  \<^verbatim>\<open>syncWithLock\<close> with the awaited engine as a parameter, so that the
  \<^verbatim>\<open>finally\<close> block is modelled for an engine that throws as well: \<open>Inr None\<close> is
  the \<^verbatim>\<open>null\<close> of a skipped call, \<open>Inl e\<close> the rethrown value.
\<close>

definition runExclusive :: "('s world \<Rightarrow> 's world \<times> (error + SyncResult)) \<Rightarrow> 's world
                            \<Rightarrow> 's world \<times> (error + SyncResult option)" where
  "runExclusive engine w =
     (if isSyncing w then (w, Inr None)
      else
        (let (w', outcome) = engine (w\<lparr>isSyncing := True\<rparr>)
         in (w'\<lparr>isSyncing := False\<rparr>,
             case outcome of Inl e \<Rightarrow> Inl e | Inr result \<Rightarrow> Inr (Some result))))"

definition syncWithLock :: "'s storage \<Rightarrow> 's world \<Rightarrow> 's world \<times> (error + SyncResult option)" where
  "syncWithLock st w = runExclusive (syncLocalMediaFiles st) w"

subsection \<open>Vocabulary of the statements, and example states\<close>

text \<open>The mutating store calls issued between the state \<open>w\<close> and the later state \<open>w'\<close>.\<close>

definition newCalls :: "'s world \<Rightarrow> 's world \<Rightarrow> storeCall list" where
  "newCalls w w' = drop (length (calls w)) (calls w')"

text \<open>
  A store record outside the scanned path set whose path \<^verbatim>\<open>fs.access\<close> still
  reaches, and one whose path it does not reach.
\<close>

definition staleAccessible :: "filesystem \<Rightarrow> string set \<Rightarrow> Content \<Rightarrow> bool" where
  "staleAccessible fs localFilePaths c =
     (truthy (c_localFilePath c) \<and> the (c_localFilePath c) \<notin> localFilePaths
      \<and> fs_access fs (the (c_localFilePath c)))"

definition staleMissing :: "filesystem \<Rightarrow> string set \<Rightarrow> Content \<Rightarrow> bool" where
  "staleMissing fs localFilePaths c =
     (truthy (c_localFilePath c) \<and> the (c_localFilePath c) \<notin> localFilePaths
      \<and> \<not> fs_access fs (the (c_localFilePath c)))"

text \<open>The store holds a record with the local path \<open>p\<close>.\<close>

definition hasRecord :: "Content list \<Rightarrow> string \<Rightarrow> bool" where
  "hasRecord s p = (Some p \<in> set (map c_localFilePath s))"

text \<open>Every value that an operation of the store throws can be converted to a string.\<close>

definition throwsPrintable :: "'s storage \<Rightarrow> bool" where
  "throwsPrintable st =
     (\<forall>s s' e.
        (getAllContent st s = (s', Inl e) \<longrightarrow> printable e)
        \<and> (\<forall>p. getContentByLocalPath st s p = (s', Inl e) \<longrightarrow> printable e)
        \<and> (\<forall>ins. createContent st s ins = (s', Inl e) \<longrightarrow> printable e)
        \<and> (\<forall>p. deleteContentByLocalPath st s p = (s', Inl e) \<longrightarrow> printable e))"

text \<open>
  A store that does what the interface of the spec's section 6 names, with \<open>recs s\<close> the
  records that the state \<open>s\<close> holds: no operation throws; \<^verbatim>\<open>getAllContent\<close> lists
  the records; \<^verbatim>\<open>getContentByLocalPath\<close> returns a record exactly when one with
  that local path is held; \<^verbatim>\<open>createContent\<close> adds one record, with the local path
  given; \<^verbatim>\<open>deleteContentByLocalPath\<close> removes the records with that local path
  and no other; and the two reading operations leave the records as they are.
\<close>

definition faithfulStore :: "'s storage \<Rightarrow> ('s \<Rightarrow> Content list) \<Rightarrow> bool" where
  "faithfulStore st recs =
     (\<forall>s.
        (\<exists>s'. getAllContent st s = (s', Inr (recs s)) \<and> recs s' = recs s)
        \<and> (\<forall>p. \<exists>s' r. getContentByLocalPath st s p = (s', Inr r) \<and> recs s' = recs s
                       \<and> (r = None \<longleftrightarrow> \<not> hasRecord (recs s) p))
        \<and> (\<forall>ins. \<exists>s' c c'. createContent st s ins = (s', Inr c) \<and> recs s' = recs s @ [c']
                       \<and> c_localFilePath c' = ic_localFilePath ins)
        \<and> (\<forall>p. \<exists>s'. deleteContentByLocalPath st s p = (s', Inr ())
                       \<and> recs s' = filter (\<lambda>c. c_localFilePath c \<noteq> Some p) (recs s)))"

text \<open>
  An example filesystem: two images and a video in the media directories, the stat of
  \<^verbatim>\<open>b.png\<close> failing, and a file outside the media directories.
\<close>

definition demoFs :: filesystem where
  "demoFs =
     \<lparr>cwd = ''/app'',
      videos_reject_first = False,
      access_ok = (\<lambda>p. p \<in> set [''/app/server/media/images'', ''/app/server/media/videos'',
                                   ''/app/server/media/images/a.jpg'',
                                   ''/app/server/media/images/b.png'',
                                   ''/app/server/media/videos/c.mp4'',
                                   ''/app/uploads/notes.txt'']),
      readdir_result = (\<lambda>p. if p = ''/app/server/media/images'' then Inr [''a.jpg'', ''b.png'']
                            else if p = ''/app/server/media/videos'' then Inr [''c.mp4'']
                            else Inl ''ENOENT: no such file or directory, scandir''),
      stat_result = (\<lambda>p. if p = ''/app/server/media/images/b.png''
                         then Inl ''EACCES: permission denied, stat''
                         else Inr 2048),
      mkdir_error = (\<lambda>p. None)\<rparr>"

text \<open>
  The same with every listing failing; a filesystem with nothing but an empty working
  directory, where directories can be created; and one where they cannot.
\<close>

definition unreadableFs :: filesystem where
  "unreadableFs = demoFs\<lparr>readdir_result := (\<lambda>p. Inl ''EACCES: permission denied, scandir'')\<rparr>"



text \<open>
  Stores for the examples: an empty one, and one with a record outside the media
  directories, a record whose file is gone, and a record of \<^verbatim>\<open>a.jpg\<close> with an
  outdated size.
\<close>

definition storedFile :: "nat \<Rightarrow> string \<Rightarrow> string \<Rightarrow> nat \<Rightarrow> Content" where
  "storedFile i t p sz =
     \<lparr>c_id = i, c_title = t, c_type = ImageType, c_localFilePath = Some p,
      c_mimeType = ''image/png'', c_fileSize = sz, c_duration = None,
      c_googleDriveId = None, c_googleDriveUrl = None\<rparr>"

definition emptyStoreWorld :: "Content list world" where
  "emptyStoreWorld = \<lparr>files = demoFs, db = [], calls = [], isSyncing = False\<rparr>"

definition staleWorld :: "Content list world" where
  "staleWorld =
     \<lparr>files = demoFs,
      db = [storedFile 1 ''notes'' ''/app/uploads/notes.txt'' 10,
            storedFile 2 ''old'' ''/app/server/media/images/old.png'' 20,
            storedFile 3 ''a'' ''/app/server/media/images/a.jpg'' 1],
      calls = [], isSyncing = False\<rparr>"

text \<open>
  Stores for the examples of failing operations: the given store with a
  \<^verbatim>\<open>deleteContentByLocalPath\<close> that always throws, and with a
  \<^verbatim>\<open>createContent\<close> that always throws; and a store state with two records
  whose files are gone.
\<close>

definition failingDelete :: "'s storage \<Rightarrow> 's storage" where
  "failingDelete st = st\<lparr>deleteContentByLocalPath := (\<lambda>s p. (s, Inl (Error ''delete failed'')))\<rparr>"

definition failingCreate :: "'s storage \<Rightarrow> 's storage" where
  "failingCreate st = st\<lparr>createContent := (\<lambda>s ins. (s, Inl (Error ''create failed'')))\<rparr>"

text \<open>
  A \<^verbatim>\<open>Symbol\<close> as a thrown value, and the given store with a
  \<^verbatim>\<open>getAllContent\<close> that throws the given value.
\<close>

definition aSymbol :: error where
  "aSymbol = Unprintable (Error ''TypeError: Cannot convert a Symbol value to a string'')"

definition failingList :: "error \<Rightarrow> 's storage \<Rightarrow> 's storage" where
  "failingList e st = st\<lparr>getAllContent := (\<lambda>s. (s, Inl e))\<rparr>"

definition twoGoneWorld :: "Content list world" where
  "twoGoneWorld =
     \<lparr>files = demoFs,
      db = [storedFile 1 ''old'' ''/app/server/media/images/old.png'' 20,
            storedFile 2 ''older'' ''/app/server/media/images/older.png'' 30],
      calls = [], isSyncing = False\<rparr>"

section \<open>Properties\<close>

subsection \<open>What the two loops do to the state, for any store\<close>

lemma printable_render: "printable e \<longleftrightarrow> (\<exists>m. render e = Inr m)"
  by (cases e) simp_all

lemma catchAdding_cases:
  "catchAdding f e (w, r) = (w', r', eo) \<Longrightarrow>
   w' = w \<and> ((\<exists>m. render e = Inr m \<and> eo = None
                  \<and> r' = pushError (''Error adding '' @ title f @ '': '' @ m) r)
            \<or> (\<exists>t. render e = Inl t \<and> eo = Some t \<and> r' = r))"
  by (auto simp: catchAdding_def split: sum.splits)

text \<open>What one iteration of the first loop leaves as it was, and the calls it issues.\<close>

lemma addFile_frame:
  assumes "addFile st f (w, r) = (w', r', eo)"
  shows "files w' = files w" "isSyncing w' = isSyncing w" "removed r' = removed r"
    "\<exists>cs. calls w' = calls w @ cs \<and> set cs \<subseteq> {CreateContent (convertToInsertContent f)}"
  using assms
  by (auto simp: addFile_def Let_def pushError_def
          split: prod.splits sum.splits option.splits dest!: catchAdding_cases)

lemma addLoop_Cons_None:
  "addFile st f wr = (w1, r1, None) \<Longrightarrow> addLoop st (f # fl) wr = addLoop st fl (w1, r1)"
  by simp

lemma addLoop_Cons_Some:
  "addFile st f wr = (w1, r1, Some e) \<Longrightarrow> addLoop st (f # fl) wr = (w1, r1, Some e)"
  by simp

lemma addLoop_frame:
  "addLoop st fl (w, r) = (w', r', eo) \<Longrightarrow>
   files w' = files w \<and> isSyncing w' = isSyncing w \<and> removed r' = removed r
   \<and> (\<exists>cs. calls w' = calls w @ cs
           \<and> set cs \<subseteq> (\<lambda>f. CreateContent (convertToInsertContent f)) ` set fl)"
proof (induction fl arbitrary: w r)
  case Nil
  then show ?case by simp
next
  case (Cons f fl)
  obtain w1 r1 e1 where step: "addFile st f (w, r) = (w1, r1, e1)"
    by (cases "addFile st f (w, r)") auto
  note fr = addFile_frame[OF step]
  obtain cs1 where c1: "calls w1 = calls w @ cs1" "set cs1 \<subseteq> {CreateContent (convertToInsertContent f)}"
    using fr(4) by blast
  show ?case
  proof (cases e1)
    case None
    then have "addLoop st fl (w1, r1) = (w', r', eo)"
      using Cons.prems step by simp
    from Cons.IH[OF this] obtain cs2 where ih:
      "files w' = files w1" "isSyncing w' = isSyncing w1" "removed r' = removed r1"
      "calls w' = calls w1 @ cs2"
      "set cs2 \<subseteq> (\<lambda>f. CreateContent (convertToInsertContent f)) ` set fl"
      by blast
    have "calls w' = calls w @ (cs1 @ cs2)" using c1 ih by simp
    moreover have "set (cs1 @ cs2) \<subseteq> (\<lambda>f. CreateContent (convertToInsertContent f)) ` set (f # fl)"
      using c1 ih by auto
    ultimately show ?thesis using fr ih by (metis (no_types, lifting))
  next
    case (Some e)
    then have "(w', r', eo) = (w1, r1, Some e)" using Cons.prems step by simp
    then have "w' = w1" "r' = r1" by simp_all
    moreover have "set cs1 \<subseteq> (\<lambda>f. CreateContent (convertToInsertContent f)) ` set (f # fl)"
      using c1 by auto
    ultimately show ?thesis using fr c1 by blast
  qed
qed

text \<open>
  When every value the store throws can be converted to a string, an iteration of the
  first loop does not throw, and it adds one to exactly one of \<^verbatim>\<open>added\<close>,
  \<^verbatim>\<open>unchanged\<close> and the number of errors.
\<close>

lemma addFile_printable:
  assumes "throwsPrintable st"
  shows "\<exists>w' r'. addFile st f (w, r) = (w', r', None)
           \<and> added r' + unchanged r' + length (errors r')
               = added r + unchanged r + length (errors r) + 1"
proof -
  obtain s1 existing where l: "getContentByLocalPath st (db w) (localFilePath f) = (s1, existing)"
    by (cases "getContentByLocalPath st (db w) (localFilePath f)")
  obtain s2 created where c: "createContent st s1 (convertToInsertContent f) = (s2, created)"
    by (cases "createContent st s1 (convertToInsertContent f)")
  have pl: "\<exists>m. render e = Inr m" if "existing = Inl e" for e
    using assms l that unfolding throwsPrintable_def printable_render[symmetric] by blast
  have pc: "\<exists>m. render e = Inr m" if "created = Inl e" for e
    using assms c that unfolding throwsPrintable_def printable_render[symmetric] by blast
  show ?thesis
  proof (cases existing)
    case (Inl e)
    then show ?thesis using l pl[OF Inl]
      by (auto simp: addFile_def catchAdding_def pushError_def)
  next
    case (Inr found)
    show ?thesis
    proof (cases found)
      case (Some c')
      then show ?thesis using l Inr by (simp add: addFile_def)
    next
      case None
      show ?thesis
      proof (cases created)
        case (Inl e)
        then show ?thesis using l c Inr None pc[OF Inl]
          by (auto simp: addFile_def catchAdding_def pushError_def)
      next
        case (Inr c')
        then show ?thesis using l c \<open>existing = Inr found\<close> None by (simp add: addFile_def)
      qed
    qed
  qed
qed

lemma addLoop_printable:
  assumes "throwsPrintable st"
  shows "\<exists>w' r'. addLoop st fl (w, r) = (w', r', None)
           \<and> added r' + unchanged r' + length (errors r')
               = added r + unchanged r + length (errors r) + length fl"
proof (induction fl arbitrary: w r)
  case Nil
  then show ?case by simp
next
  case (Cons f fl)
  from addFile_printable[OF assms, of f w r] obtain w1 r1 where step:
    "addFile st f (w, r) = (w1, r1, None)"
    "added r1 + unchanged r1 + length (errors r1) = added r + unchanged r + length (errors r) + 1"
    by blast
  from Cons.IH[of w1 r1] obtain w' r' where ih:
    "addLoop st fl (w1, r1) = (w', r', None)"
    "added r' + unchanged r' + length (errors r')
       = added r1 + unchanged r1 + length (errors r1) + length fl"
    by blast
  show ?case using step ih by simp
qed

lemma removeLoop_files: "files (fst (removeLoop st P cs (w, r))) = files w"
  by (induction st P cs "(w, r)" arbitrary: w r rule: removeLoop.induct)
     (auto simp: Let_def split: prod.splits sum.splits)

lemma removeLoop_isSyncing: "isSyncing (fst (removeLoop st P cs (w, r))) = isSyncing w"
  by (induction st P cs "(w, r)" arbitrary: w r rule: removeLoop.induct)
     (auto simp: Let_def split: prod.splits sum.splits)

text \<open>The three ways through the body of the second loop.\<close>

lemma removeLoop_skip:
  "\<not> truthy (c_localFilePath c) \<or> the (c_localFilePath c) \<in> P \<Longrightarrow>
   removeLoop st P (c # cs) (w, r) = removeLoop st P cs (w, r)"
  by (auto simp: Let_def)

lemma removeLoop_keep:
  "truthy (c_localFilePath c) \<Longrightarrow> the (c_localFilePath c) \<notin> P \<Longrightarrow>
   fs_access (files w) (the (c_localFilePath c)) \<Longrightarrow>
   removeLoop st P (c # cs) (w, r) = removeLoop st P cs (w, r\<lparr>unchanged := unchanged r + 1\<rparr>)"
  by (simp add: Let_def)

lemma removeLoop_delete:
  "truthy (c_localFilePath c) \<Longrightarrow> the (c_localFilePath c) \<notin> P \<Longrightarrow>
   \<not> fs_access (files w) (the (c_localFilePath c)) \<Longrightarrow>
   deleteContentByLocalPath st (db w) (the (c_localFilePath c)) = (s1, deleted) \<Longrightarrow>
   removeLoop st P (c # cs) (w, r) =
     (case deleted of
        Inl e \<Rightarrow> (w\<lparr>db := s1, calls := calls w @ [DeleteContentByLocalPath (the (c_localFilePath c))]\<rparr>,
                  r, Some e)
      | Inr u \<Rightarrow> removeLoop st P cs
                  (w\<lparr>db := s1, calls := calls w @ [DeleteContentByLocalPath (the (c_localFilePath c))]\<rparr>,
                   r\<lparr>removed := removed r + 1\<rparr>))"
  by (cases deleted) (simp_all add: Let_def)

lemma removeLoop_trace:
  "removeLoop st P cs (w, r) = (w', r', eo) \<Longrightarrow>
   \<exists>ps. calls w' = calls w @ map DeleteContentByLocalPath ps
      \<and> prefix ps (map (\<lambda>c. the (c_localFilePath c)) (filter (staleMissing (files w) P) cs))
      \<and> added r' = added r \<and> errors r' = errors r
      \<and> removed r' \<le> removed r + length (filter (staleMissing (files w) P) cs)
      \<and> (eo = None \<longrightarrow>
           ps = map (\<lambda>c. the (c_localFilePath c)) (filter (staleMissing (files w) P) cs)
         \<and> unchanged r' = unchanged r + length (filter (staleAccessible (files w) P) cs)
         \<and> removed r' = removed r + length (filter (staleMissing (files w) P) cs))"
proof (induction cs arbitrary: w r)
  case Nil
  then show ?case by simp
next
  case (Cons c cs)
  define p where "p = the (c_localFilePath c)"
  consider (skip) "\<not> truthy (c_localFilePath c) \<or> p \<in> P"
    | (keep) "truthy (c_localFilePath c)" "p \<notin> P" "fs_access (files w) p"
    | (del) "truthy (c_localFilePath c)" "p \<notin> P" "\<not> fs_access (files w) p"
    by blast
  then show ?case
  proof cases
    case skip
    then have "removeLoop st P cs (w, r) = (w', r', eo)"
      using Cons.prems removeLoop_skip[of c P st cs w r] by (auto simp: p_def)
    from Cons.IH[OF this] skip show ?thesis
      by (auto simp: staleMissing_def staleAccessible_def p_def)
  next
    case keep
    then have "removeLoop st P cs (w, r\<lparr>unchanged := unchanged r + 1\<rparr>) = (w', r', eo)"
      using Cons.prems removeLoop_keep[of c P w st cs r] by (simp add: p_def)
    from Cons.IH[OF this] keep show ?thesis
      by (auto simp: staleMissing_def staleAccessible_def p_def)
  next
    case del
    obtain s1 deleted where d: "deleteContentByLocalPath st (db w) p = (s1, deleted)"
      by (cases "deleteContentByLocalPath st (db w) p")
    define w1 where "w1 = w\<lparr>db := s1, calls := calls w @ [DeleteContentByLocalPath p]\<rparr>"
    have head: "filter (staleMissing (files w) P) (c # cs) = c # filter (staleMissing (files w) P) cs"
      and acc: "filter (staleAccessible (files w) P) (c # cs) = filter (staleAccessible (files w) P) cs"
      using del by (simp_all add: staleMissing_def staleAccessible_def p_def)
    show ?thesis
    proof (cases deleted)
      case (Inl e)
      then have "(w', r', eo) = (w1, r, Some e)"
        using Cons.prems del removeLoop_delete[of c P w st s1 deleted cs r] d
        by (simp add: p_def w1_def)
      then have "calls w' = calls w @ map DeleteContentByLocalPath [p]" "r' = r" "eo = Some e"
        by (simp_all add: w1_def)
      then show ?thesis unfolding head by (intro exI[of _ "[p]"]) (simp add: p_def)
    next
      case (Inr u)
      then have rec: "removeLoop st P cs (w1, r\<lparr>removed := removed r + 1\<rparr>) = (w', r', eo)"
        using Cons.prems del removeLoop_delete[of c P w st s1 deleted cs r] d
        by (simp add: p_def w1_def)
      have fw: "files w1 = files w" "calls w1 = calls w @ [DeleteContentByLocalPath p]"
        by (simp_all add: w1_def)
      from Cons.IH[OF rec] obtain ps where ps:
        "calls w' = calls w1 @ map DeleteContentByLocalPath ps"
        "prefix ps (map (\<lambda>c. the (c_localFilePath c)) (filter (staleMissing (files w) P) cs))"
        "added r' = added r" "errors r' = errors r"
        "removed r' \<le> removed r + 1 + length (filter (staleMissing (files w) P) cs)"
        "eo = None \<longrightarrow>
           ps = map (\<lambda>c. the (c_localFilePath c)) (filter (staleMissing (files w) P) cs)
         \<and> unchanged r' = unchanged r + length (filter (staleAccessible (files w) P) cs)
         \<and> removed r' = removed r + 1 + length (filter (staleMissing (files w) P) cs)"
        unfolding fw by auto
      show ?thesis unfolding head acc
        using ps fw by (intro exI[of _ "p # ps"]) (simp add: p_def)
    qed
  qed
qed

text \<open>
  When a delete throws, the second loop ends at that record: the counts are those of
  the records before it, and the records after it are not looked at.
\<close>

lemma removeLoop_throw:
  "removeLoop st P cs (w, r) = (w', r', Some e) \<Longrightarrow>
   \<exists>pre c post s s'.
      cs = pre @ c # post \<and> staleMissing (files w) P c
      \<and> deleteContentByLocalPath st s (the (c_localFilePath c)) = (s', Inl e)
      \<and> calls w' = calls w
           @ map DeleteContentByLocalPath
               (map (\<lambda>c. the (c_localFilePath c)) (filter (staleMissing (files w) P) pre))
           @ [DeleteContentByLocalPath (the (c_localFilePath c))]
      \<and> added r' = added r \<and> errors r' = errors r
      \<and> unchanged r' = unchanged r + length (filter (staleAccessible (files w) P) pre)
      \<and> removed r' = removed r + length (filter (staleMissing (files w) P) pre)"
proof (induction cs arbitrary: w r)
  case Nil
  then show ?case by simp
next
  case (Cons c cs)
  define p where "p = the (c_localFilePath c)"
  consider (skip) "\<not> truthy (c_localFilePath c) \<or> p \<in> P"
    | (keep) "truthy (c_localFilePath c)" "p \<notin> P" "fs_access (files w) p"
    | (del) "truthy (c_localFilePath c)" "p \<notin> P" "\<not> fs_access (files w) p"
    by blast
  then show ?case
  proof cases
    case skip
    then have rec: "removeLoop st P cs (w, r) = (w', r', Some e)"
      using Cons.prems removeLoop_skip[of c P st cs w r] by (auto simp: p_def)
    have no: "\<not> staleMissing (files w) P c" "\<not> staleAccessible (files w) P c"
      using skip by (auto simp: staleMissing_def staleAccessible_def p_def)
    from Cons.IH[OF rec] obtain pre c' post s s' where ih:
      "cs = pre @ c' # post" "staleMissing (files w) P c'"
      "deleteContentByLocalPath st s (the (c_localFilePath c')) = (s', Inl e)"
      "calls w' = calls w
           @ map DeleteContentByLocalPath
               (map (\<lambda>c. the (c_localFilePath c)) (filter (staleMissing (files w) P) pre))
           @ [DeleteContentByLocalPath (the (c_localFilePath c'))]"
      "added r' = added r" "errors r' = errors r"
      "unchanged r' = unchanged r + length (filter (staleAccessible (files w) P) pre)"
      "removed r' = removed r + length (filter (staleMissing (files w) P) pre)"
      by blast
    show ?thesis
      apply (rule exI[of _ "c # pre"], rule exI[of _ c'], rule exI[of _ post], rule exI[of _ s], rule exI[of _ s'])
      using ih no by simp
  next
    case keep
    then have rec: "removeLoop st P cs (w, r\<lparr>unchanged := unchanged r + 1\<rparr>) = (w', r', Some e)"
      using Cons.prems removeLoop_keep[of c P w st cs r] by (simp add: p_def)
    have no: "\<not> staleMissing (files w) P c" "staleAccessible (files w) P c"
      using keep by (auto simp: staleMissing_def staleAccessible_def p_def)
    from Cons.IH[OF rec] obtain pre c' post s s' where ih:
      "cs = pre @ c' # post" "staleMissing (files w) P c'"
      "deleteContentByLocalPath st s (the (c_localFilePath c')) = (s', Inl e)"
      "calls w' = calls w
           @ map DeleteContentByLocalPath
               (map (\<lambda>c. the (c_localFilePath c)) (filter (staleMissing (files w) P) pre))
           @ [DeleteContentByLocalPath (the (c_localFilePath c'))]"
      "added r' = added r" "errors r' = errors r"
      "unchanged r' = unchanged r + 1 + length (filter (staleAccessible (files w) P) pre)"
      "removed r' = removed r + length (filter (staleMissing (files w) P) pre)"
      by auto
    show ?thesis
      apply (rule exI[of _ "c # pre"], rule exI[of _ c'], rule exI[of _ post], rule exI[of _ s], rule exI[of _ s'])
      using ih no by simp
  next
    case del
    obtain s1 deleted where d: "deleteContentByLocalPath st (db w) (the (c_localFilePath c)) = (s1, deleted)"
      by (cases "deleteContentByLocalPath st (db w) (the (c_localFilePath c))")
    define w1 where "w1 = w\<lparr>db := s1, calls := calls w @ [DeleteContentByLocalPath p]\<rparr>"
    have yes: "staleMissing (files w) P c" "\<not> staleAccessible (files w) P c"
      using del by (auto simp: staleMissing_def staleAccessible_def p_def)
    have eq: "removeLoop st P (c # cs) (w, r) =
               (case deleted of
                  Inl e \<Rightarrow> (w1, r, Some e)
                | Inr u \<Rightarrow> removeLoop st P cs (w1, r\<lparr>removed := removed r + 1\<rparr>))"
      unfolding w1_def p_def using del d by (intro removeLoop_delete) (simp_all add: p_def)
    show ?thesis
    proof (cases deleted)
      case (Inl e')
      then have out: "w' = w1" "r' = r" "e' = e" using Cons.prems eq by simp_all
      show ?thesis
        apply (rule exI[of _ "[]"], rule exI[of _ c], rule exI[of _ cs], rule exI[of _ "db w"], rule exI[of _ s1])
        using out yes d Inl by (simp add: w1_def p_def)
    next
      case (Inr u)
      then have rec: "removeLoop st P cs (w1, r\<lparr>removed := removed r + 1\<rparr>) = (w', r', Some e)"
        using Cons.prems eq by simp
      have fw: "files w1 = files w" "calls w1 = calls w @ [DeleteContentByLocalPath p]"
        by (simp_all add: w1_def)
      from Cons.IH[OF rec] obtain pre c' post s s' where ih:
        "cs = pre @ c' # post" "staleMissing (files w) P c'"
        "deleteContentByLocalPath st s (the (c_localFilePath c')) = (s', Inl e)"
        "calls w' = calls w1
             @ map DeleteContentByLocalPath
                 (map (\<lambda>c. the (c_localFilePath c)) (filter (staleMissing (files w) P) pre))
             @ [DeleteContentByLocalPath (the (c_localFilePath c'))]"
        "added r' = added r" "errors r' = errors r"
        "unchanged r' = unchanged r + length (filter (staleAccessible (files w) P) pre)"
        "removed r' = removed r + 1 + length (filter (staleMissing (files w) P) pre)"
        unfolding fw by auto
      show ?thesis
        apply (rule exI[of _ "c # pre"], rule exI[of _ c'], rule exI[of _ post], rule exI[of _ s], rule exI[of _ s'])
        using ih yes fw by (simp add: p_def)
    qed
  qed
qed

subsection \<open>The scanner\<close>

lemma scanFiles_duration: "f \<in> set (scanFiles fs d ty exts names) \<Longrightarrow> duration f = None"
  by (induction names) (auto simp: Let_def split: if_splits sum.splits)

lemma scanDirectory_duration:
  "scanDirectory fs d ty exts = (fs', Inr fl) \<Longrightarrow> f \<in> set fl \<Longrightarrow> duration f = None"
  by (auto simp: scanDirectory_def split: if_splits sum.splits dest: scanFiles_duration)

lemma scanLocalMediaFiles_Inr:
  "scanLocalMediaFiles fs = (fs2, Inr fl) \<Longrightarrow>
   \<exists>fs1 is vs. scanDirectory fs (IMAGES_DIR fs) ImageType IMAGE_EXTENSIONS = (fs1, Inr is)
       \<and> scanDirectory fs1 (VIDEOS_DIR fs) VideoType VIDEO_EXTENSIONS = (fs2, Inr vs)
       \<and> fl = is @ vs"
  by (auto simp: scanLocalMediaFiles_def Let_def split: prod.splits sum.splits)

lemma scanLocalMediaFiles_duration:
  assumes "snd (scanLocalMediaFiles fs) = Inr fl" "f \<in> set fl"
  shows "duration f = None"
proof -
  obtain fs2 where "scanLocalMediaFiles fs = (fs2, Inr fl)"
    using assms(1) by (cases "scanLocalMediaFiles fs") simp
  then obtain fs1 "is" vs where
    i: "scanDirectory fs (IMAGES_DIR fs) ImageType IMAGE_EXTENSIONS = (fs1, Inr is)" and
    v: "scanDirectory fs1 (VIDEOS_DIR fs) VideoType VIDEO_EXTENSIONS = (fs2, Inr vs)" and
    fl: "fl = is @ vs"
    using scanLocalMediaFiles_Inr by blast
  from assms(2) fl have "f \<in> set is \<or> f \<in> set vs" by simp
  then show ?thesis
    using scanDirectory_duration[OF i] scanDirectory_duration[OF v] by blast
qed

text \<open>What a scan throws is an \<^verbatim>\<open>Error\<close> object of \<^verbatim>\<open>fs/promises\<close>.\<close>

lemma scanDirectory_printable: "scanDirectory fs d ty ex = (fs', Inl e) \<Longrightarrow> printable e"
  by (auto simp: scanDirectory_def fs_mkdir_def fs_readdir_def
          split: if_splits sum.splits option.splits)

lemma scanLocalMediaFiles_printable:
  assumes "scanLocalMediaFiles fs = (fs', Inl e)"
  shows "printable e"
proof -
  obtain fs1 ri where i: "scanDirectory fs (IMAGES_DIR fs) ImageType IMAGE_EXTENSIONS = (fs1, ri)"
    by (cases "scanDirectory fs (IMAGES_DIR fs) ImageType IMAGE_EXTENSIONS")
  obtain fs2 rv where v: "scanDirectory fs1 (VIDEOS_DIR fs) VideoType VIDEO_EXTENSIONS = (fs2, rv)"
    by (cases "scanDirectory fs1 (VIDEOS_DIR fs) VideoType VIDEO_EXTENSIONS")
  have "e \<in> {x. ri = Inl x} \<union> {x. rv = Inl x}"
    using assms i v by (auto simp: scanLocalMediaFiles_def split: sum.splits if_splits)
  then show ?thesis
    using scanDirectory_printable[of fs _ ImageType IMAGE_EXTENSIONS fs1 e]
          scanDirectory_printable[of fs1 _ VideoType VIDEO_EXTENSIONS fs2 e] i v
    by auto
qed


subsection \<open>The run as a whole, for any store\<close>

lemma syncBody_scan_fails:
  "scanLocalMediaFiles (files w) = (fs1, Inl e) \<Longrightarrow>
   syncBody st w = (w\<lparr>files := fs1\<rparr>, emptyResult, Some e)"
  by (simp add: syncBody_def)

lemma syncBody_list_fails:
  "scanLocalMediaFiles (files w) = (fs1, Inr fl) \<Longrightarrow> getAllContent st (db w) = (s1, Inl e) \<Longrightarrow>
   syncBody st w = (w\<lparr>files := fs1, db := s1\<rparr>, emptyResult, Some e)"
  by (simp add: syncBody_def)

lemma syncBody_add_throws:
  "scanLocalMediaFiles (files w) = (fs1, Inr fl) \<Longrightarrow> getAllContent st (db w) = (s1, Inr allContent) \<Longrightarrow>
   addLoop st fl (w\<lparr>files := fs1, db := s1\<rparr>, emptyResult) = (w1, r1, Some e) \<Longrightarrow>
   syncBody st w = (w1, r1, Some e)"
  by (simp add: syncBody_def Let_def)

lemma syncBody_reconcile:
  "scanLocalMediaFiles (files w) = (fs1, Inr fl) \<Longrightarrow> getAllContent st (db w) = (s1, Inr allContent) \<Longrightarrow>
   addLoop st fl (w\<lparr>files := fs1, db := s1\<rparr>, emptyResult) = (w1, r1, None) \<Longrightarrow>
   syncBody st w =
     removeLoop st (set (map localFilePath fl)) (filter (\<lambda>c. truthy (c_localFilePath c)) allContent)
       (w1, r1)"
  by (simp add: syncBody_def Let_def)

lemma syncLocalMediaFiles_world: "fst (syncLocalMediaFiles st w) = fst (syncBody st w)"
  by (simp add: syncLocalMediaFiles_def split: prod.splits option.splits sum.splits)

lemma syncLocalMediaFiles_done:
  "syncBody st w = (w', r, None) \<Longrightarrow> syncLocalMediaFiles st w = (w', Inr r)"
  by (simp add: syncLocalMediaFiles_def)

lemma syncLocalMediaFiles_caught:
  "syncBody st w = (w', r, Some e) \<Longrightarrow> render e = Inr m \<Longrightarrow>
   syncLocalMediaFiles st w = (w', Inr (pushError (''Sync failed: '' @ m) r))"
  by (simp add: syncLocalMediaFiles_def)

lemma syncLocalMediaFiles_rejects:
  "syncBody st w = (w', r, Some e) \<Longrightarrow> render e = Inl t \<Longrightarrow>
   syncLocalMediaFiles st w = (w', Inl t)"
  by (simp add: syncLocalMediaFiles_def)

text \<open>The counts of a resolved run are those the \<^verbatim>\<open>try\<close> block left.\<close>

lemma syncLocalMediaFiles_counts:
  "syncLocalMediaFiles st w = (w', Inr r) \<Longrightarrow> syncBody st w = (wb, rb, eo) \<Longrightarrow>
   w' = wb \<and> added r = added rb \<and> removed r = removed rb \<and> unchanged r = unchanged rb
   \<and> (eo = None \<longrightarrow> r = rb)"
  by (auto simp: syncLocalMediaFiles_def pushError_def split: option.splits sum.splits)

lemma filter_stale_truthy:
  "filter (staleMissing fs P) (filter (\<lambda>c. truthy (c_localFilePath c)) cs) = filter (staleMissing fs P) cs"
  "filter (staleAccessible fs P) (filter (\<lambda>c. truthy (c_localFilePath c)) cs) = filter (staleAccessible fs P) cs"
  by (induction cs) (auto simp: staleMissing_def staleAccessible_def)

text \<open>The run as a whole: creations of scanned files, then deletions of missing stale records.\<close>

lemma syncBody_trace:
  assumes scan: "scanLocalMediaFiles (files w) = (fs1, Inr fl)"
      and list: "getAllContent st (db w) = (s1, Inr allContent)"
      and body: "syncBody st w = (w', r, eo)"
      and r1: "r1 = fst (snd (addLoop st fl (w\<lparr>files := fs1, db := s1\<rparr>, emptyResult)))"
  shows "\<exists>cs ps. calls w' = calls w @ cs @ map DeleteContentByLocalPath ps
           \<and> set cs \<subseteq> (\<lambda>f. CreateContent (convertToInsertContent f)) ` set fl
           \<and> prefix ps (map (\<lambda>c. the (c_localFilePath c))
                          (filter (staleMissing fs1 (set (map localFilePath fl))) allContent))
           \<and> added r = added r1 \<and> errors r = errors r1
           \<and> removed r \<le> removed r1 + length (filter (staleMissing fs1 (set (map localFilePath fl))) allContent)
           \<and> (eo = None \<longrightarrow>
                unchanged r = unchanged r1
                   + length (filter (staleAccessible fs1 (set (map localFilePath fl))) allContent)
              \<and> removed r = removed r1
                   + length (filter (staleMissing fs1 (set (map localFilePath fl))) allContent))"
proof -
  define w0 where "w0 = w\<lparr>files := fs1, db := s1\<rparr>"
  obtain w1 e1 where a: "addLoop st fl (w0, emptyResult) = (w1, r1, e1)"
    using r1 by (cases "addLoop st fl (w0, emptyResult)") (simp add: w0_def)
  obtain cs where cs: "calls w1 = calls w @ cs"
      "set cs \<subseteq> (\<lambda>f. CreateContent (convertToInsertContent f)) ` set fl"
    using addLoop_frame[OF a] by (auto simp: w0_def)
  have fw: "files w1 = fs1"
    using addLoop_frame[OF a] by (simp add: w0_def)
  show ?thesis
  proof (cases e1)
    case (Some e)
    then have "(w', r, eo) = (w1, r1, Some e)"
      using syncBody_add_throws[OF scan list a[unfolded w0_def Some]] body by simp
    then have "calls w' = calls w @ cs @ map DeleteContentByLocalPath []" "r = r1" "eo = Some e"
      using cs by simp_all
    then show ?thesis using cs(2) by (intro exI[of _ cs] exI[of _ "[]"]) simp
  next
    case None
    have "removeLoop st (set (map localFilePath fl)) (filter (\<lambda>c. truthy (c_localFilePath c)) allContent)
            (w1, r1) = (w', r, eo)"
      using syncBody_reconcile[OF scan list a[unfolded w0_def None]] body by simp
    from removeLoop_trace[OF this] obtain ps where
      "calls w' = calls w1 @ map DeleteContentByLocalPath ps"
      "prefix ps (map (\<lambda>c. the (c_localFilePath c))
                  (filter (staleMissing fs1 (set (map localFilePath fl))) allContent))"
      "added r = added r1" "errors r = errors r1"
      "removed r \<le> removed r1 + length (filter (staleMissing fs1 (set (map localFilePath fl))) allContent)"
      "eo = None \<longrightarrow>
         unchanged r = unchanged r1
            + length (filter (staleAccessible fs1 (set (map localFilePath fl))) allContent)
       \<and> removed r = removed r1
            + length (filter (staleMissing fs1 (set (map localFilePath fl))) allContent)"
      unfolding fw filter_stale_truthy by auto
    then show ?thesis using cs by auto
  qed
qed

lemma newCalls_append: "calls w' = calls w @ cs \<Longrightarrow> newCalls w w' = cs"
  by (simp add: newCalls_def)

lemma syncBody_calls:
  "\<exists>cs ps. calls (fst (syncBody st w)) = calls w @ cs @ map DeleteContentByLocalPath ps
     \<and> (\<forall>c\<in>set cs. \<exists>fl f. snd (scanLocalMediaFiles (files w)) = Inr fl \<and> f \<in> set fl
                          \<and> c = CreateContent (convertToInsertContent f))"
proof -
  obtain fs1 scanned where scan: "scanLocalMediaFiles (files w) = (fs1, scanned)"
    by (cases "scanLocalMediaFiles (files w)")
  obtain s1 listed where list: "getAllContent st (db w) = (s1, listed)"
    by (cases "getAllContent st (db w)")
  show ?thesis
  proof (cases scanned)
    case (Inl e)
    then show ?thesis using syncBody_scan_fails[of w fs1 e st] scan by simp
  next
    case fl: (Inr fl)
    show ?thesis
    proof (cases listed)
      case (Inl e)
      then show ?thesis using syncBody_list_fails[of w fs1 fl st s1 e] scan list fl by simp
    next
      case (Inr allContent)
      obtain w' r eo where body: "syncBody st w = (w', r, eo)"
        by (cases "syncBody st w")
      from syncBody_trace[OF _ _ body refl, of fs1 fl s1 allContent] scan list fl Inr
      obtain cs ps where "calls w' = calls w @ cs @ map DeleteContentByLocalPath ps"
        "set cs \<subseteq> (\<lambda>f. CreateContent (convertToInsertContent f)) ` set fl"
        by auto
      then show ?thesis using body scan fl by (intro exI[of _ cs] exI[of _ ps]) auto
    qed
  qed
qed

text \<open>The engine never writes the flag of the lock.\<close>

lemma syncLocalMediaFiles_isSyncing: "isSyncing (fst (syncLocalMediaFiles st w)) = isSyncing w"
proof -
  obtain fs1 scanned where scan: "scanLocalMediaFiles (files w) = (fs1, scanned)"
    by (cases "scanLocalMediaFiles (files w)")
  obtain s1 listed where list: "getAllContent st (db w) = (s1, listed)"
    by (cases "getAllContent st (db w)")
  show ?thesis
  proof (cases scanned)
    case (Inl e)
    then show ?thesis
      using syncBody_scan_fails[of w fs1 e st] scan by (simp add: syncLocalMediaFiles_world)
  next
    case fl: (Inr fl)
    show ?thesis
    proof (cases listed)
      case (Inl e)
      then show ?thesis
        using syncBody_list_fails[of w fs1 fl st s1 e] scan list fl
        by (simp add: syncLocalMediaFiles_world)
    next
      case (Inr allContent)
      obtain w1 r1 e1 where a: "addLoop st fl (w\<lparr>files := fs1, db := s1\<rparr>, emptyResult) = (w1, r1, e1)"
        by (cases "addLoop st fl (w\<lparr>files := fs1, db := s1\<rparr>, emptyResult)") auto
      have flag: "isSyncing w1 = isSyncing w"
        using addLoop_frame[OF a] by simp
      show ?thesis
      proof (cases e1)
        case (Some e)
        then show ?thesis
          using syncBody_add_throws[of w fs1 fl st s1 allContent w1 r1 e] scan list fl Inr a flag
          by (simp add: syncLocalMediaFiles_world)
      next
        case None
        then show ?thesis
          using syncBody_reconcile[of w fs1 fl st s1 allContent w1 r1] scan list fl Inr a flag
                removeLoop_isSyncing[of st _ _ w1 r1]
          by (simp add: syncLocalMediaFiles_world)
      qed
    qed
  qed
qed

subsection \<open>The sync engine never raises\<close>

text \<open>What the run returns on each way out of the \<^verbatim>\<open>try\<close> block.\<close>

lemma sync_scan_throws:
  assumes scan: "scanLocalMediaFiles (files w) = (fs1, Inl e)"
  shows "\<exists>m. render e = Inr m
           \<and> syncLocalMediaFiles st w
               = (w\<lparr>files := fs1\<rparr>,
                  Inr \<lparr>added = 0, removed = 0, unchanged = 0, errors = [''Sync failed: '' @ m]\<rparr>)"
proof -
  obtain m where m: "render e = Inr m"
    using scanLocalMediaFiles_printable[OF scan] printable_render by blast
  show ?thesis
    using syncLocalMediaFiles_caught[OF syncBody_scan_fails[OF scan, of st] m] m
    by (simp add: pushError_def emptyResult_def)
qed

lemma sync_list_throws:
  assumes scan: "scanLocalMediaFiles (files w) = (fs1, Inr fl)"
      and list: "getAllContent st (db w) = (s1, Inl e)"
      and m: "render e = Inr m"
  shows "syncLocalMediaFiles st w
           = (w\<lparr>files := fs1, db := s1\<rparr>,
              Inr \<lparr>added = 0, removed = 0, unchanged = 0, errors = [''Sync failed: '' @ m]\<rparr>)"
  using syncLocalMediaFiles_caught[OF syncBody_list_fails[OF scan list] m]
  by (simp add: pushError_def emptyResult_def)

lemma sync_removal_done:
  assumes scan: "scanLocalMediaFiles (files w) = (fs1, Inr fl)"
      and list: "getAllContent st (db w) = (s1, Inr allContent)"
      and add: "addLoop st fl (w\<lparr>files := fs1, db := s1\<rparr>, emptyResult) = (w1, r1, None)"
      and rm: "removeLoop st (set (map localFilePath fl))
                 (filter (\<lambda>c. truthy (c_localFilePath c)) allContent) (w1, r1) = (w2, r2, None)"
  shows "syncLocalMediaFiles st w = (w2, Inr r2)"
    and "added r2 = added r1" and "errors r2 = errors r1"
    and "removed r2 = length (filter (staleMissing fs1 (set (map localFilePath fl))) allContent)"
    and "unchanged r2 = unchanged r1
           + length (filter (staleAccessible fs1 (set (map localFilePath fl))) allContent)"
proof -
  have fr: "files w1 = fs1" "removed r1 = 0"
    using addLoop_frame[OF add] by (simp_all add: emptyResult_def)
  show "syncLocalMediaFiles st w = (w2, Inr r2)"
    using syncLocalMediaFiles_done[of st w w2 r2] syncBody_reconcile[OF scan list add] rm by simp
  from removeLoop_trace[OF rm] show "added r2 = added r1" "errors r2 = errors r1"
    "removed r2 = length (filter (staleMissing fs1 (set (map localFilePath fl))) allContent)"
    "unchanged r2 = unchanged r1
           + length (filter (staleAccessible fs1 (set (map localFilePath fl))) allContent)"
    unfolding fr filter_stale_truthy by auto
qed

lemma sync_removal_throws:
  assumes scan: "scanLocalMediaFiles (files w) = (fs1, Inr fl)"
      and list: "getAllContent st (db w) = (s1, Inr allContent)"
      and add: "addLoop st fl (w\<lparr>files := fs1, db := s1\<rparr>, emptyResult) = (w1, r1, None)"
      and rm: "removeLoop st (set (map localFilePath fl))
                 (filter (\<lambda>c. truthy (c_localFilePath c)) allContent) (w1, r1) = (w2, r2, Some e)"
      and m: "render e = Inr m"
  shows "syncLocalMediaFiles st w = (w2, Inr (pushError (''Sync failed: '' @ m) r2))"
    and "\<exists>pre c post.
           filter (\<lambda>c. truthy (c_localFilePath c)) allContent = pre @ c # post
           \<and> staleMissing fs1 (set (map localFilePath fl)) c
           \<and> newCalls w1 w2
               = map DeleteContentByLocalPath
                   (map (\<lambda>c. the (c_localFilePath c))
                      (filter (staleMissing fs1 (set (map localFilePath fl))) pre))
                 @ [DeleteContentByLocalPath (the (c_localFilePath c))]
           \<and> added r2 = added r1 \<and> errors r2 = errors r1
           \<and> removed r2 = length (filter (staleMissing fs1 (set (map localFilePath fl))) pre)
           \<and> unchanged r2 = unchanged r1
                + length (filter (staleAccessible fs1 (set (map localFilePath fl))) pre)"
proof -
  have fr: "files w1 = fs1" "removed r1 = 0"
    using addLoop_frame[OF add] by (simp_all add: emptyResult_def)
  show "syncLocalMediaFiles st w = (w2, Inr (pushError (''Sync failed: '' @ m) r2))"
    using syncLocalMediaFiles_caught[of st w w2 r2 e m] syncBody_reconcile[OF scan list add] rm m
    by simp
  from removeLoop_throw[OF rm] obtain pre c post where
    "filter (\<lambda>c. truthy (c_localFilePath c)) allContent = pre @ c # post"
    "staleMissing fs1 (set (map localFilePath fl)) c"
    "calls w2 = calls w1
       @ map DeleteContentByLocalPath
           (map (\<lambda>c. the (c_localFilePath c))
              (filter (staleMissing fs1 (set (map localFilePath fl))) pre))
       @ [DeleteContentByLocalPath (the (c_localFilePath c))]"
    "added r2 = added r1" "errors r2 = errors r1"
    "removed r2 = length (filter (staleMissing fs1 (set (map localFilePath fl))) pre)"
    "unchanged r2 = unchanged r1
        + length (filter (staleAccessible fs1 (set (map localFilePath fl))) pre)"
    unfolding fr by auto
  then show "\<exists>pre c post.
           filter (\<lambda>c. truthy (c_localFilePath c)) allContent = pre @ c # post
           \<and> staleMissing fs1 (set (map localFilePath fl)) c
           \<and> newCalls w1 w2
               = map DeleteContentByLocalPath
                   (map (\<lambda>c. the (c_localFilePath c))
                      (filter (staleMissing fs1 (set (map localFilePath fl))) pre))
                 @ [DeleteContentByLocalPath (the (c_localFilePath c))]
           \<and> added r2 = added r1 \<and> errors r2 = errors r1
           \<and> removed r2 = length (filter (staleMissing fs1 (set (map localFilePath fl))) pre)
           \<and> unchanged r2 = unchanged r1
                + length (filter (staleAccessible fs1 (set (map localFilePath fl))) pre)"
    by (intro exI[of _ pre] exI[of _ c] exI[of _ post]) (simp add: newCalls_def)
qed

lemma removeLoop_throw_printable:
  assumes pr: "throwsPrintable st" and rm: "removeLoop st P cs (w, r) = (w', r', Some e)"
  shows "\<exists>m. render e = Inr m"
proof -
  from removeLoop_throw[OF rm] obtain c :: Content and s s' where
    "deleteContentByLocalPath st s (the (c_localFilePath c)) = (s', Inl e)" by blast
  then have "printable e" using pr unfolding throwsPrintable_def by blast
  then show ?thesis by (simp add: printable_render)
qed

text \<open>
  Claim C4, as amended. When every value that a store operation throws can be converted
  to a string, \<^verbatim>\<open>syncLocalMediaFiles\<close> resolves with a result, for every filesystem
  and every such store. When the scan throws, or \<^verbatim>\<open>getAllContent\<close> throws, the
  result has zero counts and the single entry \<^verbatim>\<open>Sync failed: ...\<close> of the thrown
  value, and no mutating store call has been issued. Otherwise the addition pass runs to
  its end, every scanned file being counted in \<^verbatim>\<open>added\<close> or \<^verbatim>\<open>unchanged\<close> or
  given an entry in \<^verbatim>\<open>errors\<close>. When the removal pass runs to its end too, the result
  is the accumulated one. When a \<^verbatim>\<open>deleteContentByLocalPath\<close> throws, the result is
  the one accumulated up to that record (the counts of the addition pass and of the
  records before it) with the entry \<^verbatim>\<open>Sync failed: ...\<close> of the thrown value appended
  to the entries of the addition pass.
\<close>

theorem syncLocalMediaFiles_never_raises:
  assumes pr: "throwsPrintable st"
  shows "\<exists>w' r. syncLocalMediaFiles st w = (w', Inr r)
     \<and> (\<forall>fs1 e. scanLocalMediaFiles (files w) = (fs1, Inl e) \<longrightarrow>
          (\<exists>m. render e = Inr m
             \<and> r = \<lparr>added = 0, removed = 0, unchanged = 0, errors = [''Sync failed: '' @ m]\<rparr>)
          \<and> db w' = db w \<and> newCalls w w' = [])
     \<and> (\<forall>fs1 fl s1 e. scanLocalMediaFiles (files w) = (fs1, Inr fl) \<longrightarrow>
          getAllContent st (db w) = (s1, Inl e) \<longrightarrow>
          (\<exists>m. render e = Inr m
             \<and> r = \<lparr>added = 0, removed = 0, unchanged = 0, errors = [''Sync failed: '' @ m]\<rparr>)
          \<and> newCalls w w' = [])
     \<and> (\<forall>fs1 fl s1 allContent. scanLocalMediaFiles (files w) = (fs1, Inr fl) \<longrightarrow>
          getAllContent st (db w) = (s1, Inr allContent) \<longrightarrow>
          (\<exists>w1 r1. addLoop st fl (w\<lparr>files := fs1, db := s1\<rparr>, emptyResult) = (w1, r1, None)
             \<and> added r1 + unchanged r1 + length (errors r1) = length fl
             \<and> added r = added r1
             \<and> (\<forall>w2 r2. removeLoop st (set (map localFilePath fl))
                            (filter (\<lambda>c. truthy (c_localFilePath c)) allContent) (w1, r1)
                          = (w2, r2, None) \<longrightarrow>
                  r = r2 \<and> errors r = errors r1
                  \<and> removed r
                      = length (filter (staleMissing fs1 (set (map localFilePath fl))) allContent)
                  \<and> unchanged r
                      = unchanged r1
                        + length (filter (staleAccessible fs1 (set (map localFilePath fl))) allContent))
             \<and> (\<forall>w2 r2 e. removeLoop st (set (map localFilePath fl))
                              (filter (\<lambda>c. truthy (c_localFilePath c)) allContent) (w1, r1)
                            = (w2, r2, Some e) \<longrightarrow>
                  (\<exists>m pre c post. render e = Inr m
                     \<and> filter (\<lambda>c. truthy (c_localFilePath c)) allContent = pre @ c # post
                     \<and> staleMissing fs1 (set (map localFilePath fl)) c
                     \<and> newCalls w1 w'
                         = map DeleteContentByLocalPath
                             (map (\<lambda>c. the (c_localFilePath c))
                                (filter (staleMissing fs1 (set (map localFilePath fl))) pre))
                           @ [DeleteContentByLocalPath (the (c_localFilePath c))]
                     \<and> errors r = errors r1 @ [''Sync failed: '' @ m]
                     \<and> removed r
                         = length (filter (staleMissing fs1 (set (map localFilePath fl))) pre)
                     \<and> unchanged r
                         = unchanged r1
                           + length (filter (staleAccessible fs1 (set (map localFilePath fl))) pre)))))"
proof -
  obtain fs1 scanned where scan: "scanLocalMediaFiles (files w) = (fs1, scanned)"
    by (cases "scanLocalMediaFiles (files w)")
  obtain s1 listed where list: "getAllContent st (db w) = (s1, listed)"
    by (cases "getAllContent st (db w)")
  show ?thesis
  proof (cases scanned)
    case (Inl e)
    from sync_scan_throws[OF scan[unfolded Inl], of st] obtain m where
      m: "render e = Inr m"
      and run: "syncLocalMediaFiles st w
               = (w\<lparr>files := fs1\<rparr>,
                  Inr \<lparr>added = 0, removed = 0, unchanged = 0, errors = [''Sync failed: '' @ m]\<rparr>)"
      by blast
    show ?thesis
      apply (rule exI[of _ "w\<lparr>files := fs1\<rparr>"])
      apply (rule exI[of _ "\<lparr>added = 0, removed = 0, unchanged = 0, errors = [''Sync failed: '' @ m]\<rparr>"])
      using run m by (simp add: scan Inl newCalls_def)
  next
    case fl: (Inr fl)
    note scan' = scan[unfolded fl]
    show ?thesis
    proof (cases listed)
      case (Inl e)
      have "printable e" using pr list Inl unfolding throwsPrintable_def by blast
      then obtain m where m: "render e = Inr m" by (auto simp: printable_render)
      note run = sync_list_throws[OF scan' list[unfolded Inl] m]
      show ?thesis
        apply (rule exI[of _ "w\<lparr>files := fs1, db := s1\<rparr>"])
        apply (rule exI[of _ "\<lparr>added = 0, removed = 0, unchanged = 0, errors = [''Sync failed: '' @ m]\<rparr>"])
        using run m by (simp add: scan' list Inl newCalls_def)
    next
      case (Inr allContent)
      note list' = list[unfolded Inr]
      from addLoop_printable[OF pr, of fl "w\<lparr>files := fs1, db := s1\<rparr>" emptyResult]
      obtain w1 r1 where add: "addLoop st fl (w\<lparr>files := fs1, db := s1\<rparr>, emptyResult) = (w1, r1, None)"
        and sum: "added r1 + unchanged r1 + length (errors r1) = length fl"
        by (auto simp: emptyResult_def)
      obtain w2 r2 eo where rm: "removeLoop st (set (map localFilePath fl))
                 (filter (\<lambda>c. truthy (c_localFilePath c)) allContent) (w1, r1) = (w2, r2, eo)"
        by (cases "removeLoop st (set (map localFilePath fl))
                 (filter (\<lambda>c. truthy (c_localFilePath c)) allContent) (w1, r1)")
      show ?thesis
      proof (cases eo)
        case None
        note d = sync_removal_done[OF scan' list' add rm[unfolded None]]
        show ?thesis
          apply (rule exI[of _ w2])
          apply (rule exI[of _ r2])
          using d sum rm[unfolded None] by (simp add: scan' list' add)
      next
        case (Some e)
        from removeLoop_throw_printable[OF pr rm[unfolded Some]] obtain m where
          m: "render e = Inr m" by blast
        note t = sync_removal_throws[OF scan' list' add rm[unfolded Some] m]
        from t(2) obtain pre c post where out:
           "filter (\<lambda>c. truthy (c_localFilePath c)) allContent = pre @ c # post"
           "staleMissing fs1 (set (map localFilePath fl)) c"
           "newCalls w1 w2
               = map DeleteContentByLocalPath
                   (map (\<lambda>c. the (c_localFilePath c))
                      (filter (staleMissing fs1 (set (map localFilePath fl))) pre))
                 @ [DeleteContentByLocalPath (the (c_localFilePath c))]"
           "added r2 = added r1" "errors r2 = errors r1"
           "removed r2 = length (filter (staleMissing fs1 (set (map localFilePath fl))) pre)"
           "unchanged r2 = unchanged r1
                + length (filter (staleAccessible fs1 (set (map localFilePath fl))) pre)"
          by blast
        have ex: "\<exists>m pre c post. render e = Inr m
                     \<and> filter (\<lambda>c. truthy (c_localFilePath c)) allContent = pre @ c # post
                     \<and> staleMissing fs1 (set (map localFilePath fl)) c
                     \<and> newCalls w1 w2
                         = map DeleteContentByLocalPath
                             (map (\<lambda>c. the (c_localFilePath c))
                                (filter (staleMissing fs1 (set (map localFilePath fl))) pre))
                           @ [DeleteContentByLocalPath (the (c_localFilePath c))]
                     \<and> errors (pushError (''Sync failed: '' @ m) r2) = errors r1 @ [''Sync failed: '' @ m]
                     \<and> removed (pushError (''Sync failed: '' @ m) r2)
                         = length (filter (staleMissing fs1 (set (map localFilePath fl))) pre)
                     \<and> unchanged (pushError (''Sync failed: '' @ m) r2)
                         = unchanged r1
                           + length (filter (staleAccessible fs1 (set (map localFilePath fl))) pre)"
          apply (rule exI[of _ m])
          apply (rule exI[of _ pre])
          apply (rule exI[of _ c])
          apply (rule exI[of _ post])
          using m out by (simp add: pushError_def)
        have ad: "added (pushError (''Sync failed: '' @ m) r2) = added r1"
          using out(4) by (simp add: pushError_def)
        show ?thesis
          apply (rule exI[of _ w2])
          apply (rule exI[of _ "pushError (''Sync failed: '' @ m) r2"])
          using t(1) sum ad ex m rm[unfolded Some] by (simp add: scan' list' add)
      qed
    qed
  qed
qed

theorem syncLocalMediaFiles_never_raises_witness:
  "throwsPrintable (failingDelete memStorage)
   \<and> snd (syncLocalMediaFiles (failingDelete memStorage) twoGoneWorld)
       = Inr \<lparr>added = 2, removed = 0, unchanged = 0, errors = [''Sync failed: delete failed'']\<rparr>
   \<and> throwsPrintable (failingList (Error ''database is locked'') memStorage)
   \<and> snd (syncLocalMediaFiles (failingList (Error ''database is locked'') memStorage) staleWorld)
       = Inr \<lparr>added = 0, removed = 0, unchanged = 0, errors = [''Sync failed: database is locked'']\<rparr>
   \<and> throwsPrintable memStorage
   \<and> snd (syncLocalMediaFiles memStorage (emptyStoreWorld\<lparr>files := unreadableFs\<rparr>))
       = Inr \<lparr>added = 0, removed = 0, unchanged = 0,
              errors = [''Sync failed: EACCES: permission denied, scandir'']\<rparr>"
proof -
  have p1: "throwsPrintable (failingDelete memStorage)"
    by (simp add: throwsPrintable_def failingDelete_def memStorage_def)
  have p2: "throwsPrintable (failingList (Error ''database is locked'') memStorage)"
    by (auto simp: throwsPrintable_def failingList_def memStorage_def)
  have p3: "throwsPrintable memStorage"
    by (simp add: throwsPrintable_def memStorage_def)
  have scanU: "scanLocalMediaFiles (files (emptyStoreWorld\<lparr>files := unreadableFs\<rparr>))
     = (fst (scanLocalMediaFiles unreadableFs), Inl (Error ''EACCES: permission denied, scandir''))"
  proof -
    have "snd (scanLocalMediaFiles unreadableFs) = Inl (Error ''EACCES: permission denied, scandir'')"
      by code_simp
    then show ?thesis by (simp add: prod_eq_iff)
  qed
  let ?fl = "[\<lparr>title = ''a'', type = ImageType, localFilePath = ''/app/server/media/images/a.jpg'',
             mimeType = ''image/jpeg'', fileSize = 2048, duration = None\<rparr>,
           \<lparr>title = ''c'', type = VideoType, localFilePath = ''/app/server/media/videos/c.mp4'',
             mimeType = ''video/mp4'', fileSize = 2048, duration = None\<rparr>]"
  have scanD: "scanLocalMediaFiles demoFs = (fst (scanLocalMediaFiles demoFs), Inr ?fl)"
  proof -
    have "snd (scanLocalMediaFiles demoFs) = Inr ?fl" by code_simp
    then show ?thesis by (simp add: prod_eq_iff)
  qed
  have listF: "getAllContent (failingList (Error ''database is locked'') memStorage) (db staleWorld)
     = (db staleWorld, Inl (Error ''database is locked''))"
    by (simp add: failingList_def)
  have c3: "snd (syncLocalMediaFiles memStorage (emptyStoreWorld\<lparr>files := unreadableFs\<rparr>))
       = Inr \<lparr>added = 0, removed = 0, unchanged = 0,
              errors = [''Sync failed: EACCES: permission denied, scandir'']\<rparr>"
  proof -
    let ?w = "emptyStoreWorld\<lparr>files := unreadableFs\<rparr>"
    from syncLocalMediaFiles_never_raises[OF p3, of ?w]
    obtain w' r where run: "syncLocalMediaFiles memStorage ?w = (w', Inr r)"
      and scan_throws: "\<forall>fs1 e. scanLocalMediaFiles (files ?w) = (fs1, Inl e) \<longrightarrow>
          (\<exists>m. render e = Inr m
             \<and> r = \<lparr>added = 0, removed = 0, unchanged = 0, errors = [''Sync failed: '' @ m]\<rparr>)
          \<and> db w' = db ?w \<and> newCalls ?w w' = []"
      apply (elim exE conjE) by blast
    from scan_throws[rule_format, OF scanU] obtain m where
      "render (Error ''EACCES: permission denied, scandir'') = Inr m"
      "r = \<lparr>added = 0, removed = 0, unchanged = 0, errors = [''Sync failed: '' @ m]\<rparr>"
      by blast
    then show ?thesis using run by simp
  qed
  have c2: "snd (syncLocalMediaFiles (failingList (Error ''database is locked'') memStorage) staleWorld)
       = Inr \<lparr>added = 0, removed = 0, unchanged = 0, errors = [''Sync failed: database is locked'']\<rparr>"
  proof -
    let ?st = "failingList (Error ''database is locked'') memStorage"
    have scanS: "scanLocalMediaFiles (files staleWorld) = (fst (scanLocalMediaFiles demoFs), Inr ?fl)"
      using scanD by (simp add: staleWorld_def)
    from syncLocalMediaFiles_never_raises[OF p2, of staleWorld]
    obtain w' r where run: "syncLocalMediaFiles ?st staleWorld = (w', Inr r)"
      and list_throws: "\<forall>fs1 fl s1 e. scanLocalMediaFiles (files staleWorld) = (fs1, Inr fl) \<longrightarrow>
          getAllContent ?st (db staleWorld) = (s1, Inl e) \<longrightarrow>
          (\<exists>m. render e = Inr m
             \<and> r = \<lparr>added = 0, removed = 0, unchanged = 0, errors = [''Sync failed: '' @ m]\<rparr>)
          \<and> newCalls staleWorld w' = []"
      apply (elim exE conjE) by blast
    from list_throws[rule_format, OF scanS listF] obtain m where
      "render (Error ''database is locked'') = Inr m"
      "r = \<lparr>added = 0, removed = 0, unchanged = 0, errors = [''Sync failed: '' @ m]\<rparr>"
      by blast
    then show ?thesis using run by simp
  qed
  have c1: "snd (syncLocalMediaFiles (failingDelete memStorage) twoGoneWorld)
       = Inr \<lparr>added = 2, removed = 0, unchanged = 0, errors = [''Sync failed: delete failed'']\<rparr>"
  proof -
    let ?st = "failingDelete memStorage"
    let ?fs1 = "fst (scanLocalMediaFiles demoFs)"
    let ?a = "addLoop ?st ?fl (twoGoneWorld\<lparr>files := ?fs1, db := db twoGoneWorld\<rparr>, emptyResult)"
    have scanT: "scanLocalMediaFiles (files twoGoneWorld) = (?fs1, Inr ?fl)"
      using scanD by (simp add: twoGoneWorld_def)
    have listT: "getAllContent ?st (db twoGoneWorld) = (db twoGoneWorld, Inr (db twoGoneWorld))"
      by (simp add: failingDelete_def memStorage_def)
    have r1: "fst (snd ?a) = \<lparr>added = 2, removed = 0, unchanged = 0, errors = []\<rparr>"
      by code_simp
    have thrown: "snd (snd (removeLoop ?st (set (map localFilePath ?fl))
                     (filter (\<lambda>c. truthy (c_localFilePath c)) (db twoGoneWorld))
                     (fst ?a, fst (snd ?a))))
                  = Some (Error ''delete failed'')"
      by code_simp
    have counts: "removed (projr (snd (syncLocalMediaFiles ?st twoGoneWorld))) = 0"
        "unchanged (projr (snd (syncLocalMediaFiles ?st twoGoneWorld))) = 0"
      by code_simp+
    from syncLocalMediaFiles_never_raises[OF p1, of twoGoneWorld]
    obtain w' r where run: "syncLocalMediaFiles ?st twoGoneWorld = (w', Inr r)"
      and passes: "\<forall>fs1 fl s1 allContent. scanLocalMediaFiles (files twoGoneWorld) = (fs1, Inr fl) \<longrightarrow>
          getAllContent ?st (db twoGoneWorld) = (s1, Inr allContent) \<longrightarrow>
          (\<exists>w1 r1. addLoop ?st fl (twoGoneWorld\<lparr>files := fs1, db := s1\<rparr>, emptyResult) = (w1, r1, None)
             \<and> added r1 + unchanged r1 + length (errors r1) = length fl
             \<and> added r = added r1
             \<and> (\<forall>w2 r2. removeLoop ?st (set (map localFilePath fl))
                            (filter (\<lambda>c. truthy (c_localFilePath c)) allContent) (w1, r1)
                          = (w2, r2, None) \<longrightarrow>
                  r = r2 \<and> errors r = errors r1
                  \<and> removed r
                      = length (filter (staleMissing fs1 (set (map localFilePath fl))) allContent)
                  \<and> unchanged r
                      = unchanged r1
                        + length (filter (staleAccessible fs1 (set (map localFilePath fl))) allContent))
             \<and> (\<forall>w2 r2 e. removeLoop ?st (set (map localFilePath fl))
                              (filter (\<lambda>c. truthy (c_localFilePath c)) allContent) (w1, r1)
                            = (w2, r2, Some e) \<longrightarrow>
                  (\<exists>m pre c post. render e = Inr m
                     \<and> filter (\<lambda>c. truthy (c_localFilePath c)) allContent = pre @ c # post
                     \<and> staleMissing fs1 (set (map localFilePath fl)) c
                     \<and> newCalls w1 w'
                         = map DeleteContentByLocalPath
                             (map (\<lambda>c. the (c_localFilePath c))
                                (filter (staleMissing fs1 (set (map localFilePath fl))) pre))
                           @ [DeleteContentByLocalPath (the (c_localFilePath c))]
                     \<and> errors r = errors r1 @ [''Sync failed: '' @ m]
                     \<and> removed r
                         = length (filter (staleMissing fs1 (set (map localFilePath fl))) pre)
                     \<and> unchanged r
                         = unchanged r1
                           + length (filter (staleAccessible fs1 (set (map localFilePath fl))) pre))))"
      apply (elim exE conjE) by blast
    from passes[rule_format, OF scanT listT] obtain w1 r1 where
      add: "?a = (w1, r1, None)" and ad: "added r = added r1"
      and throws: "\<forall>w2 r2 e. removeLoop ?st (set (map localFilePath ?fl))
                              (filter (\<lambda>c. truthy (c_localFilePath c)) (db twoGoneWorld)) (w1, r1)
                            = (w2, r2, Some e) \<longrightarrow>
                  (\<exists>m pre c post. render e = Inr m
                     \<and> filter (\<lambda>c. truthy (c_localFilePath c)) (db twoGoneWorld) = pre @ c # post
                     \<and> staleMissing ?fs1 (set (map localFilePath ?fl)) c
                     \<and> newCalls w1 w'
                         = map DeleteContentByLocalPath
                             (map (\<lambda>c. the (c_localFilePath c))
                                (filter (staleMissing ?fs1 (set (map localFilePath ?fl))) pre))
                           @ [DeleteContentByLocalPath (the (c_localFilePath c))]
                     \<and> errors r = errors r1 @ [''Sync failed: '' @ m]
                     \<and> removed r
                         = length (filter (staleMissing ?fs1 (set (map localFilePath ?fl))) pre)
                     \<and> unchanged r
                         = unchanged r1
                           + length (filter (staleAccessible ?fs1 (set (map localFilePath ?fl))) pre))"
      apply (elim exE conjE) by blast
    have w1r1: "w1 = fst ?a" "r1 = fst (snd ?a)" using add by simp_all
    obtain w2 r2 where rm: "removeLoop ?st (set (map localFilePath ?fl))
                              (filter (\<lambda>c. truthy (c_localFilePath c)) (db twoGoneWorld)) (w1, r1)
                            = (w2, r2, Some (Error ''delete failed''))"
      using thrown unfolding w1r1[symmetric]
      by (cases "removeLoop ?st (set (map localFilePath ?fl))
                              (filter (\<lambda>c. truthy (c_localFilePath c)) (db twoGoneWorld)) (w1, r1)") auto
    from throws[rule_format, OF rm] obtain m where
      "render (Error ''delete failed'') = Inr m" "errors r = errors r1 @ [''Sync failed: '' @ m]"
      by blast
    then have "errors r = [''Sync failed: delete failed'']" "added r = 2"
      using r1 w1r1 ad by simp_all
    then show ?thesis using run counts by (cases r) simp
  qed
  show ?thesis using p1 p2 p3 c1 c2 c3 by simp
qed

text \<open>
  Claim C4 as stated, for every behaviour of the store, does not hold. Both
  \<^verbatim>\<open>catch\<close> blocks build their message with \<^verbatim>\<open>${error}\<close>, and a store may throw
  a value whose conversion to a string throws (a \<^verbatim>\<open>Symbol\<close>, an object whose
  \<^verbatim>\<open>toString\<close> throws). When \<^verbatim>\<open>getAllContent\<close> throws such a value, the
  conversion in the outer \<^verbatim>\<open>catch\<close> block throws in turn, nothing catches that, and
  the run rejects with the \<^verbatim>\<open>TypeError\<close> instead of returning a result.
\<close>

theorem syncLocalMediaFiles_raises_counterexample:
  "snd (syncLocalMediaFiles (failingList aSymbol memStorage) emptyStoreWorld)
     = Inl (Error ''TypeError: Cannot convert a Symbol value to a string'')"
  by code_simp

subsection \<open>The lock\<close>

text \<open>
  Claim C5. When \<^verbatim>\<open>syncWithLock\<close> is called while \<^verbatim>\<open>isSyncing\<close> is set, it
  returns \<^verbatim>\<open>null\<close> at once: the engine is not run (the outcome is the same for every
  engine), the state is the one before the call, and no \<^verbatim>\<open>createContent\<close> or
  \<^verbatim>\<open>deleteContentByLocalPath\<close> call is issued.
\<close>

theorem syncWithLock_skips_when_in_progress:
  "isSyncing w \<Longrightarrow>
   runExclusive engine w = (w, Inr None) \<and> syncWithLock st w = (w, Inr None)
   \<and> db (fst (syncWithLock st w)) = db w \<and> newCalls w (fst (syncWithLock st w)) = []"
  by (simp add: runExclusive_def syncWithLock_def newCalls_def)

theorem syncWithLock_skips_when_in_progress_witness:
  "isSyncing (emptyStoreWorld\<lparr>isSyncing := True\<rparr>)
   \<and> syncWithLock memStorage (emptyStoreWorld\<lparr>isSyncing := True\<rparr>)
       = (emptyStoreWorld\<lparr>isSyncing := True\<rparr>, Inr None)"
  using syncWithLock_skips_when_in_progress
          [of "emptyStoreWorld\<lparr>isSyncing := True\<rparr>" "syncLocalMediaFiles memStorage" memStorage]
  by simp

text \<open>
  Claim C6. After a call of \<^verbatim>\<open>syncWithLock\<close> that found the flag clear and took
  it, the flag is clear again, whether the awaited engine resolved or threw; so the next
  call is not skipped.
\<close>

theorem lock_released:
  "\<not> isSyncing w \<Longrightarrow>
   \<not> isSyncing (fst (runExclusive engine w)) \<and> \<not> isSyncing (fst (syncWithLock st w))
   \<and> snd (syncWithLock st (fst (runExclusive engine w))) \<noteq> Inr None"
proof -
  assume free: "\<not> isSyncing w"
  have a: "\<not> isSyncing (fst (runExclusive engine' w))" for engine' :: "'a world \<Rightarrow> 'a world \<times> (error + SyncResult)"
    using free by (simp add: runExclusive_def split: prod.splits)
  have b: "snd (syncWithLock st v) \<noteq> Inr None" if "\<not> isSyncing v" for v
    using that by (auto simp: syncWithLock_def runExclusive_def split: prod.splits sum.splits)
  show ?thesis using a b by (simp add: syncWithLock_def)
qed

theorem lock_released_witness:
  "\<not> isSyncing emptyStoreWorld
   \<and> snd (runExclusive (\<lambda>w. (w, Inl (Error ''unexpected''))) emptyStoreWorld) = Inl (Error ''unexpected'')
   \<and> \<not> isSyncing (fst (runExclusive (\<lambda>w. (w, Inl (Error ''unexpected''))) emptyStoreWorld))"
proof -
  have free: "\<not> isSyncing emptyStoreWorld" by (simp add: emptyStoreWorld_def)
  have "snd (runExclusive (\<lambda>w. (w, Inl (Error ''unexpected''))) emptyStoreWorld) = Inl (Error ''unexpected'')"
    by (simp add: runExclusive_def emptyStoreWorld_def)
  then show ?thesis
    using free lock_released[OF free, of "\<lambda>w. (w, Inl (Error ''unexpected''))" memStorage] by simp
qed

subsection \<open>Duration is never populated\<close>

text \<open>
  Claim C10. Every \<^verbatim>\<open>LocalFileInfo\<close> that \<^verbatim>\<open>scanLocalMediaFiles\<close> returns
  has no duration, and every \<^verbatim>\<open>createContent\<close> call that a run issues, for any
  store, passes a record whose duration is undefined and whose \<^verbatim>\<open>googleDriveId\<close>
  and \<^verbatim>\<open>googleDriveUrl\<close> are null.
\<close>

theorem duration_never_populated:
  "(\<forall>fl f. snd (scanLocalMediaFiles fs) = Inr fl \<longrightarrow> f \<in> set fl \<longrightarrow> duration f = None)
   \<and> (\<forall>ins. CreateContent ins \<in> set (newCalls w (fst (syncLocalMediaFiles st w))) \<longrightarrow>
          ic_duration ins = None \<and> ic_googleDriveId ins = None \<and> ic_googleDriveUrl ins = None)"
proof (intro conjI allI impI)
  fix fl f assume "snd (scanLocalMediaFiles fs) = Inr fl" "f \<in> set fl"
  then show "duration f = None" by (rule scanLocalMediaFiles_duration)
next
  fix ins assume ins: "CreateContent ins \<in> set (newCalls w (fst (syncLocalMediaFiles st w)))"
  obtain cs ps where tr: "calls (fst (syncBody st w)) = calls w @ cs @ map DeleteContentByLocalPath ps"
    and cs: "\<forall>c\<in>set cs. \<exists>fl f. snd (scanLocalMediaFiles (files w)) = Inr fl \<and> f \<in> set fl
                          \<and> c = CreateContent (convertToInsertContent f)"
    using syncBody_calls by blast
  have "newCalls w (fst (syncLocalMediaFiles st w)) = cs @ map DeleteContentByLocalPath ps"
    using tr by (simp add: syncLocalMediaFiles_world newCalls_append)
  with ins have "CreateContent ins \<in> set cs" by auto
  with cs obtain fl f where f: "snd (scanLocalMediaFiles (files w)) = Inr fl" "f \<in> set fl"
      "ins = convertToInsertContent f"
    by auto
  have "duration f = None" using f(1,2) by (rule scanLocalMediaFiles_duration)
  then show "ic_duration ins = None" "ic_googleDriveId ins = None" "ic_googleDriveUrl ins = None"
    using f(3) by (simp_all add: convertToInsertContent_def)
qed

theorem duration_never_populated_witness:
  "snd (scanLocalMediaFiles demoFs) =
     Inr [\<lparr>title = ''a'', type = ImageType, localFilePath = ''/app/server/media/images/a.jpg'',
            mimeType = ''image/jpeg'', fileSize = 2048, duration = None\<rparr>,
          \<lparr>title = ''c'', type = VideoType, localFilePath = ''/app/server/media/videos/c.mp4'',
            mimeType = ''video/mp4'', fileSize = 2048, duration = None\<rparr>]
   \<and> CreateContent
        \<lparr>ic_title = ''c'', ic_type = VideoType,
         ic_localFilePath = Some ''/app/server/media/videos/c.mp4'', ic_mimeType = ''video/mp4'',
         ic_fileSize = 2048, ic_duration = None, ic_googleDriveId = None, ic_googleDriveUrl = None\<rparr>
       \<in> set (newCalls emptyStoreWorld (fst (syncLocalMediaFiles memStorage emptyStoreWorld)))"
proof -
  have scan: "snd (scanLocalMediaFiles demoFs) =
     Inr [\<lparr>title = ''a'', type = ImageType, localFilePath = ''/app/server/media/images/a.jpg'',
            mimeType = ''image/jpeg'', fileSize = 2048, duration = None\<rparr>,
          \<lparr>title = ''c'', type = VideoType, localFilePath = ''/app/server/media/videos/c.mp4'',
            mimeType = ''video/mp4'', fileSize = 2048, duration = None\<rparr>]"
    by code_simp
  have run: "newCalls emptyStoreWorld (fst (syncLocalMediaFiles memStorage emptyStoreWorld)) =
     [CreateContent
        \<lparr>ic_title = ''a'', ic_type = ImageType,
         ic_localFilePath = Some ''/app/server/media/images/a.jpg'', ic_mimeType = ''image/jpeg'',
         ic_fileSize = 2048, ic_duration = None, ic_googleDriveId = None, ic_googleDriveUrl = None\<rparr>,
      CreateContent
        \<lparr>ic_title = ''c'', ic_type = VideoType,
         ic_localFilePath = Some ''/app/server/media/videos/c.mp4'', ic_mimeType = ''video/mp4'',
         ic_fileSize = 2048, ic_duration = None, ic_googleDriveId = None, ic_googleDriveUrl = None\<rparr>]"
    by code_simp
  show ?thesis
    using duration_never_populated[of demoFs emptyStoreWorld memStorage] scan run by simp
qed

subsection \<open>The accessibility guard of the removal pass\<close>

text \<open>
  Claim C7. In a run whose scan and listing succeed, for any store: every
  \<^verbatim>\<open>deleteContentByLocalPath\<close> call is for the path of a listed record that is
  outside the scanned set and not accessible; no such call is issued for a record
  outside the scanned set whose path is accessible; \<^verbatim>\<open>removed\<close> counts only
  inaccessible records outside the set; and when the removal pass runs to its end,
  \<^verbatim>\<open>removed\<close> is their number and \<^verbatim>\<open>unchanged\<close> is the count after the
  addition pass plus the number of accessible records outside the set.
\<close>

theorem removal_pass_accessibility_guard:
  assumes scan: "scanLocalMediaFiles (files w) = (fs1, Inr fl)"
      and list: "getAllContent st (db w) = (s1, Inr allContent)"
      and run: "syncLocalMediaFiles st w = (w', Inr r)"
      and P: "P = set (map localFilePath fl)"
      and r1: "r1 = fst (snd (addLoop st fl (w\<lparr>files := fs1, db := s1\<rparr>, emptyResult)))"
  shows "(\<forall>p. DeleteContentByLocalPath p \<in> set (newCalls w w') \<longrightarrow>
            (\<exists>c\<in>set allContent. c_localFilePath c = Some p) \<and> p \<notin> P \<and> \<not> fs_access fs1 p)
       \<and> (\<forall>c\<in>set allContent. staleAccessible fs1 P c \<longrightarrow>
            DeleteContentByLocalPath (the (c_localFilePath c)) \<notin> set (newCalls w w'))
       \<and> removed r \<le> length (filter (staleMissing fs1 P) allContent)
       \<and> (snd (snd (syncBody st w)) = None \<longrightarrow>
            removed r = length (filter (staleMissing fs1 P) allContent)
          \<and> unchanged r = unchanged r1 + length (filter (staleAccessible fs1 P) allContent))"
proof -
  obtain wb rb eo where body: "syncBody st w = (wb, rb, eo)"
    by (cases "syncBody st w")
  have w': "w' = wb" and r: "removed r = removed rb" "unchanged r = unchanged rb"
    using syncLocalMediaFiles_counts[OF run body] by simp_all
  from syncBody_trace[OF scan list body r1] obtain cs ps where
    tr: "calls wb = calls w @ cs @ map DeleteContentByLocalPath ps"
    and cs: "set cs \<subseteq> (\<lambda>f. CreateContent (convertToInsertContent f)) ` set fl"
    and ps: "prefix ps (map (\<lambda>c. the (c_localFilePath c)) (filter (staleMissing fs1 P) allContent))"
    and rem: "removed rb \<le> removed r1 + length (filter (staleMissing fs1 P) allContent)"
    and fin: "eo = None \<longrightarrow>
                unchanged rb = unchanged r1 + length (filter (staleAccessible fs1 P) allContent)
              \<and> removed rb = removed r1 + length (filter (staleMissing fs1 P) allContent)"
    unfolding P by blast
  have r10: "removed r1 = 0"
  proof -
    obtain w1 e1 where "addLoop st fl (w\<lparr>files := fs1, db := s1\<rparr>, emptyResult) = (w1, r1, e1)"
      using r1 by (cases "addLoop st fl (w\<lparr>files := fs1, db := s1\<rparr>, emptyResult)") simp
    from addLoop_frame[OF this] show ?thesis by (simp add: emptyResult_def)
  qed
  have new: "newCalls w w' = cs @ map DeleteContentByLocalPath ps"
    using tr w' by (simp add: newCalls_append)
  have del: "p \<in> set ps" if "DeleteContentByLocalPath p \<in> set (newCalls w w')" for p
    using that cs new by auto
  have stale: "\<exists>c\<in>set allContent. staleMissing fs1 P c \<and> the (c_localFilePath c) = p" if "p \<in> set ps" for p
    using that ps set_mono_prefix[OF ps] by auto
  have a: "(\<exists>c\<in>set allContent. c_localFilePath c = Some p) \<and> p \<notin> P \<and> \<not> fs_access fs1 p"
    if issued: "DeleteContentByLocalPath p \<in> set (newCalls w w')" for p
  proof -
    obtain c where c: "c \<in> set allContent" "staleMissing fs1 P c" "the (c_localFilePath c) = p"
      using stale[OF del[OF issued]] by blast
    then have "c_localFilePath c = Some p"
      by (cases "c_localFilePath c") (auto simp: staleMissing_def)
    then show ?thesis using c by (auto simp: staleMissing_def)
  qed
  have b: "DeleteContentByLocalPath (the (c_localFilePath c)) \<notin> set (newCalls w w')"
    if "c \<in> set allContent" "staleAccessible fs1 P c" for c
    using a[of "the (c_localFilePath c)"] that by (auto simp: staleAccessible_def)
  show ?thesis using a b rem fin r r10 body by auto
qed


theorem removal_pass_accessibility_guard_witness:
  "scanLocalMediaFiles (files staleWorld) =
     (demoFs,
      Inr [\<lparr>title = ''a'', type = ImageType, localFilePath = ''/app/server/media/images/a.jpg'',
             mimeType = ''image/jpeg'', fileSize = 2048, duration = None\<rparr>,
           \<lparr>title = ''c'', type = VideoType, localFilePath = ''/app/server/media/videos/c.mp4'',
             mimeType = ''video/mp4'', fileSize = 2048, duration = None\<rparr>])
   \<and> getAllContent memStorage (db staleWorld) = (db staleWorld, Inr (db staleWorld))
   \<and> snd (syncLocalMediaFiles memStorage staleWorld)
        = Inr \<lparr>added = 1, removed = 1, unchanged = 2, errors = []\<rparr>
   \<and> newCalls staleWorld (fst (syncLocalMediaFiles memStorage staleWorld))
        = [CreateContent
             \<lparr>ic_title = ''c'', ic_type = VideoType,
              ic_localFilePath = Some ''/app/server/media/videos/c.mp4'', ic_mimeType = ''video/mp4'',
              ic_fileSize = 2048, ic_duration = None, ic_googleDriveId = None,
              ic_googleDriveUrl = None\<rparr>,
           DeleteContentByLocalPath ''/app/server/media/images/old.png'']
   \<and> \<not> fs_access demoFs ''/app/server/media/images/old.png''
   \<and> fs_access demoFs ''/app/uploads/notes.txt''"
proof -
  let ?fl = "[\<lparr>title = ''a'', type = ImageType, localFilePath = ''/app/server/media/images/a.jpg'',
             mimeType = ''image/jpeg'', fileSize = 2048, duration = None\<rparr>,
           \<lparr>title = ''c'', type = VideoType, localFilePath = ''/app/server/media/videos/c.mp4'',
             mimeType = ''video/mp4'', fileSize = 2048, duration = None\<rparr>]"
  have st: "snd (scanLocalMediaFiles demoFs) = Inr ?fl" by code_simp
  have ft: "fst (scanLocalMediaFiles demoFs) = demoFs"
    by (simp add: scanLocalMediaFiles_def scanDirectory_def fs_access_def fs_readdir_def demoFs_def
          IMAGES_DIR_def VIDEOS_DIR_def MEDIA_DIR_def path_join_def split: prod.splits sum.splits)
  have scan: "scanLocalMediaFiles (files staleWorld) = (demoFs, Inr ?fl)"
    using st ft by (simp add: staleWorld_def prod_eq_iff)
  have list: "getAllContent memStorage (db staleWorld) = (db staleWorld, Inr (db staleWorld))"
    by (simp add: memStorage_def)
  have res: "snd (syncLocalMediaFiles memStorage staleWorld)
        = Inr \<lparr>added = 1, removed = 1, unchanged = 2, errors = []\<rparr>"
    by code_simp
  have run: "syncLocalMediaFiles memStorage staleWorld
        = (fst (syncLocalMediaFiles memStorage staleWorld),
           Inr \<lparr>added = 1, removed = 1, unchanged = 2, errors = []\<rparr>)"
    using res by (simp add: prod_eq_iff)
  have new: "newCalls staleWorld (fst (syncLocalMediaFiles memStorage staleWorld))
        = [CreateContent
             \<lparr>ic_title = ''c'', ic_type = VideoType,
              ic_localFilePath = Some ''/app/server/media/videos/c.mp4'', ic_mimeType = ''video/mp4'',
              ic_fileSize = 2048, ic_duration = None, ic_googleDriveId = None,
              ic_googleDriveUrl = None\<rparr>,
           DeleteContentByLocalPath ''/app/server/media/images/old.png'']"
    by code_simp
  have acc: "\<not> fs_access demoFs ''/app/server/media/images/old.png''"
      "fs_access demoFs ''/app/uploads/notes.txt''"
    by (simp_all add: fs_access_def demoFs_def)
  from removal_pass_accessibility_guard[OF scan list run refl refl] scan list res new acc
  show ?thesis by simp
qed

subsection \<open>The configured directories and repeated scans\<close>

lemma MEDIA_DIR_last: "MEDIA_DIR fs \<noteq> [] \<and> last (MEDIA_DIR fs) \<noteq> CHR ''/''"
  by (simp add: MEDIA_DIR_def path_join_def)

lemma IMAGES_DIR_eq: "IMAGES_DIR fs = MEDIA_DIR fs @ ''/images''"
  using MEDIA_DIR_last[of fs] by (simp add: IMAGES_DIR_def path_join_def)

lemma VIDEOS_DIR_eq: "VIDEOS_DIR fs = MEDIA_DIR fs @ ''/videos''"
  using MEDIA_DIR_last[of fs] by (simp add: VIDEOS_DIR_def path_join_def)















text \<open>
  When the directory is missing and cannot be created, the failure of
  \<^verbatim>\<open>fs.mkdir\<close> is the outcome of the scan of that directory.
\<close>

lemma scanDirectory_mkdir_fails:
  "\<not> fs_access fs d \<Longrightarrow> mkdir_error fs d = Some m \<Longrightarrow>
   scanDirectory fs d ty ex = (fs, Inl (Error m))"
  by (simp add: scanDirectory_def fs_mkdir_def)





subsection \<open>A missing directory\<close>




subsection \<open>The two loops over a store that does what its interface names\<close>

lemma hasRecord_iff: "hasRecord s p \<longleftrightarrow> (\<exists>c\<in>set s. c_localFilePath c = Some p)"
  by (force simp: hasRecord_def)

lemma find_path_None: "find (\<lambda>c. c_localFilePath c = Some p) s = None \<longleftrightarrow> \<not> hasRecord s p"
  by (auto simp: find_None_iff hasRecord_iff)

lemma hasRecord_append: "hasRecord (s @ t) p \<longleftrightarrow> hasRecord s p \<or> hasRecord t p"
  by (auto simp: hasRecord_iff)

lemma newContent_path: "c_localFilePath (newContent i ins) = ic_localFilePath ins"
  by (simp add: newContent_def)

lemma convert_path: "ic_localFilePath (convertToInsertContent f) = Some (localFilePath f)"
  by (simp add: convertToInsertContent_def)

lemma faithful_list:
  "faithfulStore st recs \<Longrightarrow> \<exists>s'. getAllContent st s = (s', Inr (recs s)) \<and> recs s' = recs s"
  by (simp add: faithfulStore_def)

lemma faithful_lookup:
  "faithfulStore st recs \<Longrightarrow>
   \<exists>s' r. getContentByLocalPath st s p = (s', Inr r) \<and> recs s' = recs s
         \<and> (r = None \<longleftrightarrow> \<not> hasRecord (recs s) p)"
  by (simp add: faithfulStore_def)

lemma faithful_create:
  "faithfulStore st recs \<Longrightarrow>
   \<exists>s' c c'. createContent st s ins = (s', Inr c) \<and> recs s' = recs s @ [c']
         \<and> c_localFilePath c' = ic_localFilePath ins"
  by (simp add: faithfulStore_def)

lemma faithful_delete:
  "faithfulStore st recs \<Longrightarrow>
   \<exists>s'. deleteContentByLocalPath st s p = (s', Inr ())
       \<and> recs s' = filter (\<lambda>c. c_localFilePath c \<noteq> Some p) (recs s)"
  by (simp add: faithfulStore_def)

text \<open>The in-memory store is such a store; its state is the list of records.\<close>

lemma memStorage_faithful: "faithfulStore memStorage (\<lambda>s. s)"
  unfolding faithfulStore_def
proof (intro allI conjI)
  fix s :: "Content list" and ins
  show "\<exists>s' c c'. createContent memStorage s ins = (s', Inr c) \<and> s' = s @ [c']
          \<and> c_localFilePath c' = ic_localFilePath ins"
    by (simp add: memStorage_def newContent_path)
qed (simp_all add: memStorage_def find_path_None)

text \<open>One iteration of the first loop.\<close>

lemma addFile_faithful_present:
  assumes "faithfulStore st recs" "hasRecord (recs (db w)) (localFilePath f)"
  shows "\<exists>w'. addFile st f (w, r) = (w', r\<lparr>unchanged := unchanged r + 1\<rparr>, None)
           \<and> recs (db w') = recs (db w) \<and> calls w' = calls w \<and> files w' = files w"
proof -
  from faithful_lookup[OF assms(1), of "db w" "localFilePath f"] assms(2)
  obtain s1 c where "getContentByLocalPath st (db w) (localFilePath f) = (s1, Inr (Some c))"
    "recs s1 = recs (db w)"
    by auto
  then show ?thesis by (simp add: addFile_def)
qed

lemma addFile_faithful_absent:
  assumes "faithfulStore st recs" "\<not> hasRecord (recs (db w)) (localFilePath f)"
  shows "\<exists>w' c. addFile st f (w, r) = (w', r\<lparr>added := added r + 1\<rparr>, None)
           \<and> recs (db w') = recs (db w) @ [c] \<and> c_localFilePath c = Some (localFilePath f)
           \<and> calls w' = calls w @ [CreateContent (convertToInsertContent f)]
           \<and> files w' = files w"
proof -
  from faithful_lookup[OF assms(1), of "db w" "localFilePath f"] assms(2)
  obtain s1 where l: "getContentByLocalPath st (db w) (localFilePath f) = (s1, Inr None)"
    "recs s1 = recs (db w)"
    by auto
  from faithful_create[OF assms(1), of s1 "convertToInsertContent f"]
  obtain s2 c c' where c: "createContent st s1 (convertToInsertContent f) = (s2, Inr c)"
    "recs s2 = recs s1 @ [c']" "c_localFilePath c' = Some (localFilePath f)"
    by (auto simp: convert_path)
  show ?thesis
    apply (rule exI[of _ "w\<lparr>db := s2, calls := calls w @ [CreateContent (convertToInsertContent f)]\<rparr>"],
           rule exI[of _ c'])
    using l c by (simp add: addFile_def)
qed


text \<open>
  The first loop: records are only added, each for a scanned path that had none;
  afterwards every scanned path has one.
\<close>

lemma addLoop_faithful:
  assumes "faithfulStore st recs"
  shows "\<exists>w' r' extra cs.
     addLoop st fl (w, r) = (w', r', None)
     \<and> recs (db w') = recs (db w) @ extra \<and> calls w' = calls w @ cs
     \<and> (\<forall>c\<in>set extra. \<exists>f\<in>set fl. c_localFilePath c = Some (localFilePath f)
                          \<and> \<not> hasRecord (recs (db w)) (localFilePath f))
     \<and> (\<forall>k\<in>set cs. \<exists>f\<in>set fl. k = CreateContent (convertToInsertContent f)
                          \<and> \<not> hasRecord (recs (db w)) (localFilePath f))
     \<and> (\<forall>f\<in>set fl. hasRecord (recs (db w')) (localFilePath f))
     \<and> errors r' = errors r \<and> removed r' = removed r
     \<and> added r' + unchanged r' = added r + unchanged r + length fl
     \<and> unchanged r + length (filter (\<lambda>f. hasRecord (recs (db w)) (localFilePath f)) fl) \<le> unchanged r'"
proof (induction fl arbitrary: w r)
  case Nil
  then show ?case by simp
next
  case (Cons f fl)
  show ?case
  proof (cases "hasRecord (recs (db w)) (localFilePath f)")
    case True
    from addFile_faithful_present[OF assms True, of r]
    obtain w1 where step: "addFile st f (w, r) = (w1, r\<lparr>unchanged := unchanged r + 1\<rparr>, None)"
      "recs (db w1) = recs (db w)" "calls w1 = calls w"
      by auto
    from Cons.IH[of w1 "r\<lparr>unchanged := unchanged r + 1\<rparr>"]
    obtain w' r' extra cs where ih:
      "addLoop st fl (w1, r\<lparr>unchanged := unchanged r + 1\<rparr>) = (w', r', None)"
      "recs (db w') = recs (db w) @ extra" "calls w' = calls w @ cs"
      "\<forall>c\<in>set extra. \<exists>f\<in>set fl. c_localFilePath c = Some (localFilePath f)
                          \<and> \<not> hasRecord (recs (db w)) (localFilePath f)"
      "\<forall>k\<in>set cs. \<exists>f\<in>set fl. k = CreateContent (convertToInsertContent f)
                          \<and> \<not> hasRecord (recs (db w)) (localFilePath f)"
      "\<forall>f\<in>set fl. hasRecord (recs (db w')) (localFilePath f)"
      "errors r' = errors r" "removed r' = removed r"
      "added r' + unchanged r' = added r + (unchanged r + 1) + length fl"
      "unchanged r + 1 + length (filter (\<lambda>f. hasRecord (recs (db w)) (localFilePath f)) fl) \<le> unchanged r'"
      unfolding step(2,3) by auto
    have here: "hasRecord (recs (db w')) (localFilePath f)"
      using True ih(2) by (simp add: hasRecord_append)
    show ?thesis
      apply (rule exI[of _ w'], rule exI[of _ r'], rule exI[of _ extra], rule exI[of _ cs])
      using True ih here step(1) by auto
  next
    case False
    from addFile_faithful_absent[OF assms False, of r]
    obtain w1 c where step: "addFile st f (w, r) = (w1, r\<lparr>added := added r + 1\<rparr>, None)"
      and dbw1: "recs (db w1) = recs (db w) @ [c]"
                "calls w1 = calls w @ [CreateContent (convertToInsertContent f)]"
      and cp: "c_localFilePath c = Some (localFilePath f)"
      by auto
    have mono: "hasRecord (recs (db w1)) p \<longleftrightarrow> hasRecord (recs (db w)) p \<or> p = localFilePath f" for p
      using cp by (auto simp: dbw1 hasRecord_iff)
    from Cons.IH[of w1 "r\<lparr>added := added r + 1\<rparr>"]
    obtain w' r' extra cs where ih:
      "addLoop st fl (w1, r\<lparr>added := added r + 1\<rparr>) = (w', r', None)"
      "recs (db w') = recs (db w1) @ extra" "calls w' = calls w1 @ cs"
      "\<forall>c\<in>set extra. \<exists>f\<in>set fl. c_localFilePath c = Some (localFilePath f)
                          \<and> \<not> hasRecord (recs (db w1)) (localFilePath f)"
      "\<forall>k\<in>set cs. \<exists>f\<in>set fl. k = CreateContent (convertToInsertContent f)
                          \<and> \<not> hasRecord (recs (db w1)) (localFilePath f)"
      "\<forall>f\<in>set fl. hasRecord (recs (db w')) (localFilePath f)"
      "errors r' = errors r" "removed r' = removed r"
      "added r' + unchanged r' = (added r + 1) + unchanged r + length fl"
      "unchanged r + length (filter (\<lambda>f. hasRecord (recs (db w1)) (localFilePath f)) fl) \<le> unchanged r'"
      by auto
    have here: "hasRecord (recs (db w')) (localFilePath f)"
      using ih(2) mono by (simp add: hasRecord_append)
    have le: "length (filter (\<lambda>f. hasRecord (recs (db w)) (localFilePath f)) fl)
                \<le> length (filter (\<lambda>f. hasRecord (recs (db w1)) (localFilePath f)) fl)"
      by (induction fl) (auto simp: mono)
    show ?thesis
      apply (rule exI[of _ w'], rule exI[of _ r'], rule exI[of _ "c # extra"],
             rule exI[of _ "CreateContent (convertToInsertContent f) # cs"])
      using False ih here le step cp dbw1 mono by auto
  qed
qed

lemma addLoop_faithful_unchanged:
  assumes "faithfulStore st recs"
  shows "distinct (map localFilePath fl) \<Longrightarrow>
   unchanged (fst (snd (addLoop st fl (w, r))))
     = unchanged r + length (filter (\<lambda>f. hasRecord (recs (db w)) (localFilePath f)) fl)"
proof (induction fl arbitrary: w r)
  case Nil
  then show ?case by simp
next
  case (Cons f fl)
  show ?case
  proof (cases "hasRecord (recs (db w)) (localFilePath f)")
    case True
    from addFile_faithful_present[OF assms True, of r]
    obtain w1 where step: "addFile st f (w, r) = (w1, r\<lparr>unchanged := unchanged r + 1\<rparr>, None)"
      "recs (db w1) = recs (db w)"
      by auto
    show ?thesis
      using True Cons.IH[of w1 "r\<lparr>unchanged := unchanged r + 1\<rparr>"] Cons.prems step by simp
  next
    case False
    from addFile_faithful_absent[OF assms False, of r]
    obtain w1 c where step: "addFile st f (w, r) = (w1, r\<lparr>added := added r + 1\<rparr>, None)"
      and dbw1: "recs (db w1) = recs (db w) @ [c]"
      and cp: "c_localFilePath c = Some (localFilePath f)"
      by auto
    have same: "hasRecord (recs (db w1)) (localFilePath g) = hasRecord (recs (db w)) (localFilePath g)"
      if "g \<in> set fl" for g
      using that Cons.prems cp by (auto simp: dbw1 hasRecord_iff)
    have "filter (\<lambda>g. hasRecord (recs (db w1)) (localFilePath g)) fl
            = filter (\<lambda>g. hasRecord (recs (db w)) (localFilePath g)) fl"
      by (rule filter_cong) (simp_all add: same)
    then show ?thesis
      using False Cons.IH[of w1 "r\<lparr>added := added r + 1\<rparr>"] Cons.prems step by simp
  qed
qed

text \<open>
  The second loop never throws; it removes the records whose path is the path of a
  missing stale record of the snapshot.
\<close>

lemma removeLoop_faithful:
  assumes "faithfulStore st recs"
  shows "\<exists>w' r'. removeLoop st P cs (w, r) = (w', r', None)
     \<and> recs (db w') = filter (\<lambda>x. c_localFilePath x \<notin>
                  Some ` set (map (\<lambda>c. the (c_localFilePath c)) (filter (staleMissing (files w) P) cs)))
                (recs (db w))"
proof (induction cs arbitrary: w r)
  case Nil
  then show ?case by simp
next
  case (Cons c cs)
  define p where "p = the (c_localFilePath c)"
  consider (skip) "\<not> truthy (c_localFilePath c) \<or> p \<in> P"
    | (keep) "truthy (c_localFilePath c)" "p \<notin> P" "fs_access (files w) p"
    | (del) "truthy (c_localFilePath c)" "p \<notin> P" "\<not> fs_access (files w) p"
    by blast
  then show ?case
  proof cases
    case skip
    then have "\<not> staleMissing (files w) P c" by (auto simp: staleMissing_def p_def)
    then show ?thesis
      using Cons.IH[of w r] removeLoop_skip[of c P st cs w r] skip by (auto simp: p_def)
  next
    case keep
    then have "\<not> staleMissing (files w) P c" by (auto simp: staleMissing_def p_def)
    then show ?thesis
      using Cons.IH[of w "r\<lparr>unchanged := unchanged r + 1\<rparr>"]
            removeLoop_keep[of c P w st cs r] keep
      by (auto simp: p_def)
  next
    case del
    from faithful_delete[OF assms, of "db w" p] obtain s1 where
      d: "deleteContentByLocalPath st (db w) (the (c_localFilePath c)) = (s1, Inr ())"
      and rs1: "recs s1 = filter (\<lambda>c. c_localFilePath c \<noteq> Some p) (recs (db w))"
      by (auto simp: p_def)
    define w1 where "w1 = w\<lparr>db := s1, calls := calls w @ [DeleteContentByLocalPath p]\<rparr>"
    have step: "removeLoop st P (c # cs) (w, r)
                  = removeLoop st P cs (w1, r\<lparr>removed := removed r + 1\<rparr>)"
      using removeLoop_delete[OF del(1) _ _ d, of P cs r] del by (simp add: p_def w1_def)
    have st: "staleMissing (files w) P c" using del by (simp add: staleMissing_def p_def)
    from Cons.IH[of w1 "r\<lparr>removed := removed r + 1\<rparr>"] obtain w' r' where ih:
      "removeLoop st P cs (w1, r\<lparr>removed := removed r + 1\<rparr>) = (w', r', None)"
      "recs (db w') = filter (\<lambda>x. c_localFilePath x \<notin>
                  Some ` set (map (\<lambda>c. the (c_localFilePath c)) (filter (staleMissing (files w) P) cs)))
                (recs (db w1))"
      by (auto simp: w1_def)
    have "recs (db w') = filter (\<lambda>x. c_localFilePath x \<notin>
                  Some ` set (map (\<lambda>c. the (c_localFilePath c)) (filter (staleMissing (files w) P) (c # cs))))
                (recs (db w))"
    proof -
      have D: "set (map (\<lambda>c. the (c_localFilePath c)) (filter (staleMissing (files w) P) (c # cs)))
                 = insert p (set (map (\<lambda>c. the (c_localFilePath c)) (filter (staleMissing (files w) P) cs)))"
        using st by (simp add: p_def)
      have "(\<lambda>x. c_localFilePath x \<noteq> Some p
                   \<and> c_localFilePath x \<notin> Some ` set (map (\<lambda>c. the (c_localFilePath c))
                                                         (filter (staleMissing (files w) P) cs)))
              = (\<lambda>x. c_localFilePath x \<notin> Some ` insert p (set (map (\<lambda>c. the (c_localFilePath c))
                                                         (filter (staleMissing (files w) P) cs))))"
        by (rule ext) auto
      then show ?thesis unfolding ih(2) D by (simp add: w1_def rs1)
    qed
    then show ?thesis using step ih(1) by simp
  qed
qed

subsection \<open>A run over such a store\<close>

lemma staleMissing_path:
  "c_localFilePath x = c_localFilePath c \<Longrightarrow> staleMissing fs P x = staleMissing fs P c"
  by (simp add: staleMissing_def)

lemma doomed_iff:
  "c_localFilePath x \<in> Some ` set (map (\<lambda>c. the (c_localFilePath c)) (filter (staleMissing fs P) cs))
   \<longleftrightarrow> (\<exists>c\<in>set cs. staleMissing fs P c \<and> c_localFilePath x = c_localFilePath c)"
proof
  assume "c_localFilePath x \<in> Some ` set (map (\<lambda>c. the (c_localFilePath c)) (filter (staleMissing fs P) cs))"
  then obtain c where c: "c \<in> set cs" "staleMissing fs P c" "c_localFilePath x = Some (the (c_localFilePath c))"
    by auto
  then have "c_localFilePath c = Some (the (c_localFilePath c))"
    by (cases "c_localFilePath c") (auto simp: staleMissing_def)
  then show "\<exists>c\<in>set cs. staleMissing fs P c \<and> c_localFilePath x = c_localFilePath c"
    using c by auto
next
  assume "\<exists>c\<in>set cs. staleMissing fs P c \<and> c_localFilePath x = c_localFilePath c"
  then obtain c where c: "c \<in> set cs" "staleMissing fs P c" "c_localFilePath x = c_localFilePath c"
    by blast
  then have "c_localFilePath c = Some (the (c_localFilePath c))"
    by (cases "c_localFilePath c") (auto simp: staleMissing_def)
  then show "c_localFilePath x \<in> Some ` set (map (\<lambda>c. the (c_localFilePath c)) (filter (staleMissing fs P) cs))"
    using c by force
qed

lemma filter_doomed:
  assumes "\<forall>c\<in>set extra. \<exists>p\<in>P. c_localFilePath c = Some p"
  shows "filter (\<lambda>x. c_localFilePath x \<notin>
            Some ` set (map (\<lambda>c. the (c_localFilePath c)) (filter (staleMissing fs P) cs)))
          (cs @ extra)
         = filter (\<lambda>c. \<not> staleMissing fs P c) cs @ extra"
proof -
  have a: "filter (\<lambda>x. c_localFilePath x \<notin>
            Some ` set (map (\<lambda>c. the (c_localFilePath c)) (filter (staleMissing fs P) cs))) cs
         = filter (\<lambda>c. \<not> staleMissing fs P c) cs"
    by (rule filter_cong[OF refl]) (use doomed_iff[of _ fs P cs] staleMissing_path in blast)
  have b: "filter (\<lambda>x. c_localFilePath x \<notin>
            Some ` set (map (\<lambda>c. the (c_localFilePath c)) (filter (staleMissing fs P) cs))) extra
         = extra"
  proof (rule filter_True, rule ballI)
    fix x assume "x \<in> set extra"
    then obtain p where p: "p \<in> P" "c_localFilePath x = Some p" using assms by blast
    then have "\<not> staleMissing fs P x" by (simp add: staleMissing_def)
    then show "c_localFilePath x \<notin>
            Some ` set (map (\<lambda>c. the (c_localFilePath c)) (filter (staleMissing fs P) cs))"
      using doomed_iff[of x fs P cs] staleMissing_path[of x _ fs P] by blast
  qed
  show ?thesis using a b by simp
qed

text \<open>A run whose scan succeeds.\<close>

lemma sync_faithful:
  assumes faithful: "faithfulStore st recs"
      and scan: "scanLocalMediaFiles (files w) = (fs1, Inr fl)"
      and P: "P = set (map localFilePath fl)"
  shows "\<exists>w' r extra cs.
     syncLocalMediaFiles st w = (w', Inr r)
     \<and> files w' = fs1
     \<and> recs (db w') = filter (\<lambda>c. \<not> staleMissing fs1 P c) (recs (db w)) @ extra
     \<and> (\<forall>c\<in>set extra. \<exists>f\<in>set fl. c_localFilePath c = Some (localFilePath f)
                          \<and> \<not> hasRecord (recs (db w)) (localFilePath f))
     \<and> calls w' = calls w @ cs
          @ map DeleteContentByLocalPath
              (map (\<lambda>c. the (c_localFilePath c)) (filter (staleMissing fs1 P) (recs (db w))))
     \<and> (\<forall>k\<in>set cs. \<exists>f\<in>set fl. k = CreateContent (convertToInsertContent f)
                          \<and> \<not> hasRecord (recs (db w)) (localFilePath f))
     \<and> (\<forall>f\<in>set fl. hasRecord (recs (db w')) (localFilePath f))
     \<and> errors r = [] \<and> removed r = length (filter (staleMissing fs1 P) (recs (db w)))
     \<and> added r + unchanged r = length fl + length (filter (staleAccessible fs1 P) (recs (db w)))
     \<and> length (filter (\<lambda>f. hasRecord (recs (db w)) (localFilePath f)) fl)
         + length (filter (staleAccessible fs1 P) (recs (db w))) \<le> unchanged r
     \<and> (distinct (map localFilePath fl) \<longrightarrow>
          unchanged r = length (filter (\<lambda>f. hasRecord (recs (db w)) (localFilePath f)) fl)
                          + length (filter (staleAccessible fs1 P) (recs (db w))))"
proof -
  from faithful_list[OF faithful, of "db w"] obtain s1 where
    list: "getAllContent st (db w) = (s1, Inr (recs (db w)))" and rs1: "recs s1 = recs (db w)"
    by blast
  define w0 where "w0 = w\<lparr>files := fs1, db := s1\<rparr>"
  have w0: "recs (db w0) = recs (db w)" "calls w0 = calls w" "files w0 = fs1"
    by (simp_all add: w0_def rs1)
  from addLoop_faithful[OF faithful, of fl w0 emptyResult] obtain w1 r1 extra cs where a:
    "addLoop st fl (w0, emptyResult) = (w1, r1, None)"
    "recs (db w1) = recs (db w) @ extra" "calls w1 = calls w @ cs"
    "\<forall>c\<in>set extra. \<exists>f\<in>set fl. c_localFilePath c = Some (localFilePath f)
                          \<and> \<not> hasRecord (recs (db w)) (localFilePath f)"
    "\<forall>k\<in>set cs. \<exists>f\<in>set fl. k = CreateContent (convertToInsertContent f)
                          \<and> \<not> hasRecord (recs (db w)) (localFilePath f)"
    "\<forall>f\<in>set fl. hasRecord (recs (db w1)) (localFilePath f)"
    "errors r1 = []" "removed r1 = 0"
    "added r1 + unchanged r1 = length fl"
    "length (filter (\<lambda>f. hasRecord (recs (db w)) (localFilePath f)) fl) \<le> unchanged r1"
    unfolding w0 by (auto simp: emptyResult_def)
  have fw1: "files w1 = fs1"
    using addLoop_frame[OF a(1)] w0 by simp
  have u1: "distinct (map localFilePath fl) \<longrightarrow>
              unchanged r1 = length (filter (\<lambda>f. hasRecord (recs (db w)) (localFilePath f)) fl)"
    using addLoop_faithful_unchanged[OF faithful, of fl w0 emptyResult] a(1) w0
    by (simp add: emptyResult_def)
  let ?cs = "filter (\<lambda>c. truthy (c_localFilePath c)) (recs (db w))"
  from removeLoop_faithful[OF faithful, of P ?cs w1 r1] obtain w' r' where rm:
    "removeLoop st P ?cs (w1, r1) = (w', r', None)"
    "recs (db w') = filter (\<lambda>c. c_localFilePath c \<notin>
                  Some ` set (map (\<lambda>c. the (c_localFilePath c)) (filter (staleMissing fs1 P) (recs (db w)))))
                (recs (db w1))"
    unfolding fw1 filter_stale_truthy by blast
  from removeLoop_trace[OF rm(1)] obtain ps where tr:
    "calls w' = calls w1 @ map DeleteContentByLocalPath ps"
    "added r' = added r1" "errors r' = errors r1"
    "ps = map (\<lambda>c. the (c_localFilePath c)) (filter (staleMissing fs1 P) (recs (db w)))"
    "unchanged r' = unchanged r1 + length (filter (staleAccessible fs1 P) (recs (db w)))"
    "removed r' = removed r1 + length (filter (staleMissing fs1 P) (recs (db w)))"
    unfolding fw1 filter_stale_truthy by auto
  have body: "syncBody st w = (w', r', None)"
    using syncBody_reconcile[OF scan list a(1)[unfolded w0_def]] rm(1) by (simp add: P)
  have res: "syncLocalMediaFiles st w = (w', Inr r')"
    using syncLocalMediaFiles_done[OF body] .
  have fw': "files w' = fs1"
    using removeLoop_files[of st P ?cs w1 r1] rm(1) fw1 by simp
  have inP: "\<forall>c\<in>set extra. \<exists>p\<in>P. c_localFilePath c = Some p"
    using a(4) by (auto simp: P)
  have db': "recs (db w') = filter (\<lambda>c. \<not> staleMissing fs1 P c) (recs (db w)) @ extra"
    unfolding rm(2) a(2) using filter_doomed[OF inP] .
  have all: "hasRecord (recs (db w')) (localFilePath f)" if "f \<in> set fl" for f
  proof -
    from a(6) that obtain c where c: "c \<in> set (recs (db w1))" "c_localFilePath c = Some (localFilePath f)"
      by (auto simp: hasRecord_iff)
    then have "\<not> staleMissing fs1 P c" using that by (simp add: staleMissing_def P)
    then have "c \<in> set (recs (db w'))" using c(1) by (auto simp: db' a(2))
    then show ?thesis using c(2) by (auto simp: hasRecord_iff)
  qed
  show ?thesis
    apply (rule exI[of _ w'], rule exI[of _ r'], rule exI[of _ extra], rule exI[of _ cs])
    using res fw' db' a(3,4,5,7,8,9,10) all tr u1 by simp
qed

text \<open>The same for the in-memory store.\<close>

lemma sync_mem:
  assumes scan: "scanLocalMediaFiles (files w) = (fs1, Inr fl)"
      and P: "P = set (map localFilePath fl)"
  shows "\<exists>w' r extra cs.
     syncLocalMediaFiles memStorage w = (w', Inr r)
     \<and> files w' = fs1
     \<and> db w' = filter (\<lambda>c. \<not> staleMissing fs1 P c) (db w) @ extra
     \<and> (\<forall>c\<in>set extra. \<exists>f\<in>set fl. c_localFilePath c = Some (localFilePath f)
                          \<and> \<not> hasRecord (db w) (localFilePath f))
     \<and> calls w' = calls w @ cs
          @ map DeleteContentByLocalPath
              (map (\<lambda>c. the (c_localFilePath c)) (filter (staleMissing fs1 P) (db w)))
     \<and> (\<forall>k\<in>set cs. \<exists>f\<in>set fl. k = CreateContent (convertToInsertContent f)
                          \<and> \<not> hasRecord (db w) (localFilePath f))
     \<and> (\<forall>f\<in>set fl. hasRecord (db w') (localFilePath f))
     \<and> errors r = [] \<and> removed r = length (filter (staleMissing fs1 P) (db w))
     \<and> added r + unchanged r = length fl + length (filter (staleAccessible fs1 P) (db w))
     \<and> length (filter (\<lambda>f. hasRecord (db w) (localFilePath f)) fl)
         + length (filter (staleAccessible fs1 P) (db w)) \<le> unchanged r
     \<and> (distinct (map localFilePath fl) \<longrightarrow>
          unchanged r = length (filter (\<lambda>f. hasRecord (db w) (localFilePath f)) fl)
                          + length (filter (staleAccessible fs1 P) (db w)))"
  using sync_faithful[OF memStorage_faithful scan P] .

lemma filter_keep_extra:
  "(\<And>x. x \<in> set xs \<Longrightarrow> Q x \<Longrightarrow> R x) \<Longrightarrow> (\<And>x. x \<in> set extra \<Longrightarrow> \<not> Q x) \<Longrightarrow>
   filter Q (filter R xs @ extra) = filter Q xs"
  by (induction xs) (auto simp: filter_empty_conv)

subsection \<open>No update in place\<close>

text \<open>
  Claim C8. For a scanned file whose path has a store record: with any store, the loop
  body only increments \<^verbatim>\<open>unchanged\<close> and issues no mutating call once the lookup
  has returned a record; and in a run over the in-memory store the record is still in
  the store afterwards as it was, the records with that path are the same, no
  \<^verbatim>\<open>createContent\<close> or \<^verbatim>\<open>deleteContentByLocalPath\<close> call is issued for
  the path, and \<^verbatim>\<open>unchanged\<close> counts every scanned file that had a record.
  The size and the other fields of the descriptor play no part.
\<close>

theorem no_update_in_place:
  assumes scan: "scanLocalMediaFiles (files w) = (fs1, Inr fl)"
      and f: "f \<in> set fl"
      and c: "c \<in> set (db w)" "c_localFilePath c = Some (localFilePath f)"
      and run: "syncLocalMediaFiles memStorage w = (w', Inr r)"
  shows "(\<forall>(st :: 's storage) v res s1 c'.
            getContentByLocalPath st (db v) (localFilePath f) = (s1, Inr (Some c')) \<longrightarrow>
            addFile st f (v, res) = (v\<lparr>db := s1\<rparr>, res\<lparr>unchanged := unchanged res + 1\<rparr>, None))
       \<and> c \<in> set (db w')
       \<and> filter (\<lambda>x. c_localFilePath x = Some (localFilePath f)) (db w')
           = filter (\<lambda>x. c_localFilePath x = Some (localFilePath f)) (db w)
       \<and> (\<forall>ins. CreateContent ins \<in> set (newCalls w w') \<longrightarrow>
              ic_localFilePath ins \<noteq> Some (localFilePath f))
       \<and> DeleteContentByLocalPath (localFilePath f) \<notin> set (newCalls w w')
       \<and> length (filter (\<lambda>g. hasRecord (db w) (localFilePath g)) fl) \<le> unchanged r"
proof -
  define P where "P = set (map localFilePath fl)"
  define p where "p = localFilePath f"
  have pP: "p \<in> P" using f by (auto simp: P_def p_def)
  have has: "hasRecord (db w) p" using c by (auto simp: hasRecord_iff p_def)
  from sync_mem[OF scan P_def] run obtain extra cs where m:
    "db w' = filter (\<lambda>c. \<not> staleMissing fs1 P c) (db w) @ extra"
    "\<forall>c\<in>set extra. \<exists>f\<in>set fl. c_localFilePath c = Some (localFilePath f)
                          \<and> \<not> hasRecord (db w) (localFilePath f)"
    "calls w' = calls w @ cs
          @ map DeleteContentByLocalPath
              (map (\<lambda>c. the (c_localFilePath c)) (filter (staleMissing fs1 P) (db w)))"
    "\<forall>k\<in>set cs. \<exists>f\<in>set fl. k = CreateContent (convertToInsertContent f)
                          \<and> \<not> hasRecord (db w) (localFilePath f)"
    "length (filter (\<lambda>f. hasRecord (db w) (localFilePath f)) fl)
         + length (filter (staleAccessible fs1 P) (db w)) \<le> unchanged r"
    by auto
  have step: "addFile st f (v, res) = (v\<lparr>db := s1\<rparr>, res\<lparr>unchanged := unchanged res + 1\<rparr>, None)"
    if "getContentByLocalPath st (db v) (localFilePath f) = (s1, Inr (Some c'))"
    for st :: "'s storage" and v res s1 c'
    using that by (simp add: addFile_def)
  have keep: "\<not> staleMissing fs1 P x" if "c_localFilePath x = Some p" for x
    using that pP by (simp add: staleMissing_def)
  have fresh: "c_localFilePath x \<noteq> Some p" if "x \<in> set extra" for x
    using m(2) that has by auto
  have same: "filter (\<lambda>x. c_localFilePath x = Some p) (db w')
                = filter (\<lambda>x. c_localFilePath x = Some p) (db w)"
    unfolding m(1) by (rule filter_keep_extra) (use keep fresh in auto)
  have stays: "c \<in> set (db w')"
    using c keep[of c] by (simp add: m(1) p_def)
  have new: "newCalls w w' = cs @ map DeleteContentByLocalPath
              (map (\<lambda>c. the (c_localFilePath c)) (filter (staleMissing fs1 P) (db w)))"
    using m(3) by (simp add: newCalls_append)
  have nocreate: "ic_localFilePath ins \<noteq> Some p" if "CreateContent ins \<in> set (newCalls w w')" for ins
  proof -
    from that have "CreateContent ins \<in> set cs" unfolding new by auto
    then obtain g where "ins = convertToInsertContent g" "\<not> hasRecord (db w) (localFilePath g)"
      using m(4) by auto
    then show ?thesis using has by (auto simp: convertToInsertContent_def)
  qed
  have nodelete: "DeleteContentByLocalPath p \<notin> set (newCalls w w')"
  proof
    assume "DeleteContentByLocalPath p \<in> set (newCalls w w')"
    then have "p \<in> set (map (\<lambda>c. the (c_localFilePath c)) (filter (staleMissing fs1 P) (db w)))"
      unfolding new using m(4) by auto
    then show False using pP by (auto simp: staleMissing_def)
  qed
  show ?thesis
    using step stays same nocreate nodelete m(5) unfolding p_def by (intro conjI allI impI) auto
qed


theorem no_update_in_place_witness:
  "\<lparr>title = ''a'', type = ImageType, localFilePath = ''/app/server/media/images/a.jpg'',
     mimeType = ''image/jpeg'', fileSize = 2048, duration = None\<rparr>
     \<in> set (projr (snd (scanLocalMediaFiles (files staleWorld))))
   \<and> storedFile 3 ''a'' ''/app/server/media/images/a.jpg'' 1 \<in> set (db staleWorld)
   \<and> c_fileSize (storedFile 3 ''a'' ''/app/server/media/images/a.jpg'' 1) \<noteq> 2048
   \<and> storedFile 3 ''a'' ''/app/server/media/images/a.jpg'' 1
        \<in> set (db (fst (syncLocalMediaFiles memStorage staleWorld)))
   \<and> DeleteContentByLocalPath ''/app/server/media/images/a.jpg''
        \<notin> set (newCalls staleWorld (fst (syncLocalMediaFiles memStorage staleWorld)))"
proof -
  let ?fa = "\<lparr>title = ''a'', type = ImageType, localFilePath = ''/app/server/media/images/a.jpg'',
             mimeType = ''image/jpeg'', fileSize = 2048, duration = None\<rparr>"
  let ?fl = "[?fa,
           \<lparr>title = ''c'', type = VideoType, localFilePath = ''/app/server/media/videos/c.mp4'',
             mimeType = ''video/mp4'', fileSize = 2048, duration = None\<rparr>]"
  let ?c = "storedFile 3 ''a'' ''/app/server/media/images/a.jpg'' 1"
  have st: "snd (scanLocalMediaFiles demoFs) = Inr ?fl" by code_simp
  have scan: "scanLocalMediaFiles (files staleWorld) = (fst (scanLocalMediaFiles demoFs), Inr ?fl)"
    using st by (simp add: staleWorld_def prod_eq_iff)
  have f: "?fa \<in> set ?fl" by simp
  have c: "?c \<in> set (db staleWorld)" by (simp add: staleWorld_def)
  have cp: "c_localFilePath ?c = Some (localFilePath ?fa)" by (simp add: storedFile_def)
  have sz: "c_fileSize ?c \<noteq> 2048" by (simp add: storedFile_def)
  have res: "snd (syncLocalMediaFiles memStorage staleWorld)
        = Inr \<lparr>added = 1, removed = 1, unchanged = 2, errors = []\<rparr>"
    by code_simp
  have run: "syncLocalMediaFiles memStorage staleWorld
        = (fst (syncLocalMediaFiles memStorage staleWorld),
           Inr \<lparr>added = 1, removed = 1, unchanged = 2, errors = []\<rparr>)"
    using res by (simp add: prod_eq_iff)
  from no_update_in_place[OF scan f c cp run]
  have "?c \<in> set (db (fst (syncLocalMediaFiles memStorage staleWorld)))"
    "DeleteContentByLocalPath (localFilePath ?fa)
        \<notin> set (newCalls staleWorld (fst (syncLocalMediaFiles memStorage staleWorld)))"
    by blast+
  then show ?thesis using scan c sz by simp
qed

subsection \<open>A file whose stat fails\<close>

lemma path_join_inj: "path_join d a = path_join d b \<Longrightarrow> a = b"
  by (simp add: path_join_def split: if_splits)

lemma path_join_dirs: "path_join (IMAGES_DIR fs) a \<noteq> path_join (VIDEOS_DIR fs) b"
  using MEDIA_DIR_last[of fs]
  by (simp add: IMAGES_DIR_eq VIDEOS_DIR_eq path_join_def)

text \<open>The descriptors of a listing whose names all have an allowed extension.\<close>

lemma scanFiles_paths:
  "\<forall>n\<in>set names. toLowerCase (extname n) \<in> set ex \<Longrightarrow>
   map localFilePath (scanFiles fs d ty ex names)
     = filter (\<lambda>p. \<not> isl (getFileStats fs p)) (map (path_join d) names)"
  by (induction names) (auto simp: Let_def split: sum.splits)

lemma scanLocalMediaFiles_listed:
  assumes ai: "fs_access fs (IMAGES_DIR fs)" and av: "fs_access fs (VIDEOS_DIR fs)"
      and ri: "fs_readdir fs (IMAGES_DIR fs) = Inr is" and rv: "fs_readdir fs (VIDEOS_DIR fs) = Inr vs"
  shows "scanLocalMediaFiles fs =
           (fs, Inr (scanFiles fs (IMAGES_DIR fs) ImageType IMAGE_EXTENSIONS is
                     @ scanFiles fs (VIDEOS_DIR fs) VideoType VIDEO_EXTENSIONS vs))"
  using assms by (simp add: scanLocalMediaFiles_def scanDirectory_def)

text \<open>
  Claim C2, as amended. The directories list three distinct names with allowed
  extensions, the stat of exactly one of the three files throws, and the store is empty:
  the run over the in-memory store returns two added, none removed, none unchanged and
  an empty error list. The scanner logs the failing file and skips it; the failure does
  not reach \<^verbatim>\<open>result.errors\<close>.
\<close>

theorem per_file_scan_error_is_skipped:
  assumes fs: "files w = fs" and empty: "db w = []"
      and ai: "fs_access fs (IMAGES_DIR fs)" and av: "fs_access fs (VIDEOS_DIR fs)"
      and ri: "fs_readdir fs (IMAGES_DIR fs) = Inr is" and rv: "fs_readdir fs (VIDEOS_DIR fs) = Inr vs"
      and di: "distinct is" and dv: "distinct vs"
      and vi: "\<forall>n\<in>set is. toLowerCase (extname n) \<in> set IMAGE_EXTENSIONS"
      and vv: "\<forall>n\<in>set vs. toLowerCase (extname n) \<in> set VIDEO_EXTENSIONS"
      and three: "length is + length vs = 3"
      and one: "length (filter (\<lambda>p. isl (getFileStats fs p))
                  (map (path_join (IMAGES_DIR fs)) is @ map (path_join (VIDEOS_DIR fs)) vs)) = 1"
  shows "snd (syncLocalMediaFiles memStorage w)
           = Inr \<lparr>added = 2, removed = 0, unchanged = 0, errors = []\<rparr>"
proof -
  define fl where "fl = scanFiles fs (IMAGES_DIR fs) ImageType IMAGE_EXTENSIONS is
                     @ scanFiles fs (VIDEOS_DIR fs) VideoType VIDEO_EXTENSIONS vs"
  let ?all = "map (path_join (IMAGES_DIR fs)) is @ map (path_join (VIDEOS_DIR fs)) vs"
  have scan: "scanLocalMediaFiles (files w) = (fs, Inr fl)"
    using scanLocalMediaFiles_listed[OF ai av ri rv] fs by (simp add: fl_def)
  have paths: "map localFilePath fl = filter (\<lambda>p. \<not> isl (getFileStats fs p)) ?all"
    by (simp add: fl_def scanFiles_paths[OF vi] scanFiles_paths[OF vv])
  have "distinct ?all"
    using di dv path_join_dirs[of fs]
    by (auto simp: distinct_map inj_on_def dest: path_join_inj)
  then have dist: "distinct (map localFilePath fl)" unfolding paths by (rule distinct_filter)
  have "length (filter (\<lambda>p. isl (getFileStats fs p)) ?all)
          + length (filter (\<lambda>p. \<not> isl (getFileStats fs p)) ?all) = length ?all"
    by (rule sum_length_filter_compl)
  then have "length (map localFilePath fl) = 2" unfolding paths using one three by simp
  then have len: "length fl = 2" by simp
  from sync_mem[OF scan refl] obtain w' r where m:
    "syncLocalMediaFiles memStorage w = (w', Inr r)"
    "errors r = []" "removed r = 0" "added r + unchanged r = length fl" "unchanged r = 0"
    using dist empty by (auto simp: hasRecord_def)
  then have "r = \<lparr>added = 2, removed = 0, unchanged = 0, errors = []\<rparr>"
    using len by (cases r) simp
  then show ?thesis using m(1) by simp
qed

theorem per_file_scan_error_is_skipped_witness:
  "fs_readdir demoFs (IMAGES_DIR demoFs) = Inr [''a.jpg'', ''b.png'']
   \<and> fs_readdir demoFs (VIDEOS_DIR demoFs) = Inr [''c.mp4'']
   \<and> getFileStats demoFs ''/app/server/media/images/a.jpg'' = Inr 2048
   \<and> getFileStats demoFs ''/app/server/media/images/b.png'' = Inl (Error ''EACCES: permission denied, stat'')
   \<and> getFileStats demoFs ''/app/server/media/videos/c.mp4'' = Inr 2048
   \<and> db emptyStoreWorld = []
   \<and> snd (syncLocalMediaFiles memStorage emptyStoreWorld)
        = Inr \<lparr>added = 2, removed = 0, unchanged = 0, errors = []\<rparr>"
proof -
  have fs: "files emptyStoreWorld = demoFs" and empty: "db emptyStoreWorld = []"
    by (simp_all add: emptyStoreWorld_def)
  have dirs: "IMAGES_DIR demoFs = ''/app/server/media/images''"
             "VIDEOS_DIR demoFs = ''/app/server/media/videos''"
    by (simp_all add: IMAGES_DIR_def VIDEOS_DIR_def MEDIA_DIR_def path_join_def demoFs_def)
  have ai: "fs_access demoFs (IMAGES_DIR demoFs)" and av: "fs_access demoFs (VIDEOS_DIR demoFs)"
    unfolding dirs by (simp_all add: fs_access_def demoFs_def)
  have ri: "fs_readdir demoFs (IMAGES_DIR demoFs) = Inr [''a.jpg'', ''b.png'']"
   and rv: "fs_readdir demoFs (VIDEOS_DIR demoFs) = Inr [''c.mp4'']"
    unfolding dirs by (simp_all add: fs_readdir_def demoFs_def)
  have di: "distinct [''a.jpg'', ''b.png'']" and dv: "distinct [''c.mp4'']" by simp_all
  have vi: "\<forall>n\<in>set [''a.jpg'', ''b.png'']. toLowerCase (extname n) \<in> set IMAGE_EXTENSIONS"
    by code_simp
  have vv: "\<forall>n\<in>set [''c.mp4'']. toLowerCase (extname n) \<in> set VIDEO_EXTENSIONS"
    by code_simp
  have three: "length [''a.jpg'', ''b.png''] + length [''c.mp4''] = 3" by simp
  have stats: "getFileStats demoFs ''/app/server/media/images/a.jpg'' = Inr 2048"
      "getFileStats demoFs ''/app/server/media/images/b.png'' = Inl (Error ''EACCES: permission denied, stat'')"
      "getFileStats demoFs ''/app/server/media/videos/c.mp4'' = Inr 2048"
    by (simp_all add: getFileStats_def fs_stat_def demoFs_def)
  have one: "length (filter (\<lambda>p. isl (getFileStats demoFs p))
                  (map (path_join (IMAGES_DIR demoFs)) [''a.jpg'', ''b.png'']
                   @ map (path_join (VIDEOS_DIR demoFs)) [''c.mp4''])) = 1"
    unfolding dirs by (simp add: path_join_def stats)
  from per_file_scan_error_is_skipped[OF fs empty ai av ri rv di dv vi vv three one] ri rv stats empty
  show ?thesis by simp
qed

text \<open>
  Claim C2 as stated asks for exactly one entry in the error list; in the example
  filesystem, where the stat of \<^verbatim>\<open>b.png\<close> throws, the list is empty.
\<close>

theorem scan_error_not_in_errors_counterexample:
  "fs_readdir demoFs (IMAGES_DIR demoFs) = Inr [''a.jpg'', ''b.png'']
   \<and> fs_readdir demoFs (VIDEOS_DIR demoFs) = Inr [''c.mp4'']
   \<and> isl (getFileStats demoFs (path_join (IMAGES_DIR demoFs) ''b.png''))
   \<and> db emptyStoreWorld = []
   \<and> snd (syncLocalMediaFiles memStorage emptyStoreWorld)
        = Inr \<lparr>added = 2, removed = 0, unchanged = 0, errors = []\<rparr>
   \<and> length (errors (projr (snd (syncLocalMediaFiles memStorage emptyStoreWorld)))) \<noteq> 1"
  by code_simp

subsection \<open>Running the sync twice\<close>




subsection \<open>A store operation that throws\<close>

text \<open>
  Claim C3 asks that a failing \<^verbatim>\<open>deleteContentByLocalPath\<close> in the removal pass
  be caught per item, like a failing \<^verbatim>\<open>createContent\<close> in the addition pass.
  With two records whose files are gone and a delete that throws, the run issues the
  delete for the first record only: the throw leaves the loop through the outer
  \<^verbatim>\<open>catch\<close>, the second record is never processed, and the only entry is
  \<^verbatim>\<open>Sync failed: ...\<close>. With a \<^verbatim>\<open>createContent\<close> that throws, in the same
  state, both files get their entry and the removal pass still runs.
\<close>

theorem delete_failure_aborts_removal_pass:
  "snd (syncLocalMediaFiles (failingDelete memStorage) twoGoneWorld)
     = Inr \<lparr>added = 2, removed = 0, unchanged = 0, errors = [''Sync failed: delete failed'']\<rparr>
   \<and> filter (\<lambda>k. case k of DeleteContentByLocalPath p \<Rightarrow> True | CreateContent ins \<Rightarrow> False)
        (newCalls twoGoneWorld (fst (syncLocalMediaFiles (failingDelete memStorage) twoGoneWorld)))
     = [DeleteContentByLocalPath ''/app/server/media/images/old.png'']
   \<and> snd (syncLocalMediaFiles (failingCreate memStorage) twoGoneWorld)
     = Inr \<lparr>added = 0, removed = 2, unchanged = 0,
            errors = [''Error adding a: create failed'', ''Error adding c: create failed'']\<rparr>"
  by code_simp



end
